theory Spec2Isabelle
  imports Complex_Main "HOL-Library.Log_Nat"
begin

section \<open>JavaScript numbers\<close>

text \<open>
  Every number of \<^verbatim>\<open>performanceTest.ts\<close> is an IEEE 754 binary64 value. A finite
  double is a rational, and each arithmetic operator returns the exact result rounded to
  the nearest double, ties to even. \<open>fl\<close> is that rounding: \<open>ilog2\<close> finds the binade,
  the unit in the last place is \<open>2\<close> to the power \<open>e - 52\<close>, and the exponent is clamped
  at \<open>-1022\<close> so that tiny values round on the subnormal grid. \<open>NaN\<close> and the infinities
  are not values of this type: the only \<open>NaN\<close> the program can compute (the mean of an
  empty array) is written out where it arises, and magnitudes beyond \<open>2 ^ 1024\<close> are
  outside the model.
\<close>

type_synonym number = rat

definition pow2 :: "int \<Rightarrow> rat" where
  "pow2 e = (if 0 \<le> e then 2 ^ nat e else 1 / 2 ^ nat (- e))"

definition ilog2 :: "rat \<Rightarrow> int" where
  "ilog2 x = (let (p, q) = quotient_of x; d = bitlen p - bitlen q
              in if pow2 d \<le> x then d else d - 1)"

definition round_half_even :: "rat \<Rightarrow> int" where
  "round_half_even y =
     (let r = \<lfloor>y\<rfloor>; f = y - of_int r
      in if f < 1 / 2 then r else if 1 / 2 < f then r + 1
         else if even r then r else r + 1)"

definition fl :: "rat \<Rightarrow> number" where
  "fl x = (if x = 0 then 0
           else let e = max (ilog2 \<bar>x\<bar>) (- 1022); u = pow2 (e - 52)
                in sgn x * of_int (round_half_even (\<bar>x\<bar> / u)) * u)"

definition fadd :: "number \<Rightarrow> number \<Rightarrow> number" where
  "fadd a b = fl (a + b)"

definition fsub :: "number \<Rightarrow> number \<Rightarrow> number" where
  "fsub a b = fl (a - b)"

definition fmul :: "number \<Rightarrow> number \<Rightarrow> number" where
  "fmul a b = fl (a * b)"

text \<open>The divisor is non-zero at every call site (see \<open>generateReport\<close>).\<close>

definition fdiv :: "number \<Rightarrow> number \<Rightarrow> number" where
  "fdiv a b = fl (a / b)"

text \<open>The decimal literals of the source denote the nearest double.\<close>

definition lit_0_5 :: number where "lit_0_5 = fl (5 / 10)"
definition lit_0_95 :: number where "lit_0_95 = fl (95 / 100)"
definition lit_0_99 :: number where "lit_0_99 = fl (99 / 100)"
definition lit_0_999 :: number where "lit_0_999 = fl (999 / 1000)"

text \<open>\<^verbatim>\<open>Math.floor(length * p)\<close>, the index of every percentile.\<close>

definition percentileIndex :: "nat \<Rightarrow> number \<Rightarrow> nat" where
  "percentileIndex n p = nat \<lfloor>fmul (of_nat n) p\<rfloor>"

text \<open>
  \<^verbatim>\<open>xs[i] || 0\<close>: an index past the end reads \<^verbatim>\<open>undefined\<close>, and \<^verbatim>\<open>undefined\<close>
  and \<open>0\<close> are the falsy values that \<^verbatim>\<open>||\<close> replaces by \<open>0\<close>.
\<close>

definition at_or_zero :: "number list \<Rightarrow> nat \<Rightarrow> number" where
  "at_or_zero xs i = (if i < length xs then (if xs ! i = 0 then 0 else xs ! i) else 0)"

text \<open>\<^verbatim>\<open>xs.reduce((sum, t) => sum + t, 0)\<close>: a left fold of rounded additions.\<close>

definition sum_reduce :: "number list \<Rightarrow> number" where
  "sum_reduce xs = foldl fadd 0 xs"

text \<open>\<^verbatim>\<open>sum / xs.length\<close>, for a non-empty \<open>xs\<close>.\<close>

definition mean_of :: "number list \<Rightarrow> number" where
  "mean_of xs = fdiv (sum_reduce xs) (of_nat (length xs))"

section \<open>Recommendations\<close>

text \<open>
  The messages are the string literals of \<open>generateRecommendations\<close>; the leading
  pictograph of each is given by its UTF-8 bytes.
\<close>

definition msg_mean_excellent :: string where
  "msg_mean_excellent =
     [CHR 0xF0, CHR 0x9F, CHR 0x8F, CHR 0x86] @
     '' EXCELLENT: Average response time under 50ms - world-class performance!''"

definition msg_mean_good :: string where
  "msg_mean_good =
     [CHR 0xE2, CHR 0x9C, CHR 0x85] @
     '' GOOD: Average response time under 100ms - great user experience''"

definition msg_mean_fair :: string where
  "msg_mean_fair =
     [CHR 0xE2, CHR 0x9A, CHR 0xA0, CHR 0xEF, CHR 0xB8, CHR 0x8F] @
     ''  FAIR: Consider optimizing database queries and caching''"

definition msg_mean_needs_improvement :: string where
  "msg_mean_needs_improvement =
     [CHR 0xE2, CHR 0x9D, CHR 0x8C] @
     '' NEEDS IMPROVEMENT: Response times over 200ms may impact user experience''"

definition msg_p95_consistent :: string where
  "msg_p95_consistent =
     [CHR 0xF0, CHR 0x9F, CHR 0x9A, CHR 0x80] @
     '' 95% of requests served under 100ms - consistent performance''"

definition msg_p95_good :: string where
  "msg_p95_good =
     [CHR 0xF0, CHR 0x9F, CHR 0x93, CHR 0x8A] @
     '' 95th percentile under 200ms - good consistency''"

definition msg_p95_high :: string where
  "msg_p95_high =
     [CHR 0xF0, CHR 0x9F, CHR 0x94, CHR 0xA7] @
     '' High P95 response time suggests performance bottlenecks''"

definition msg_success_outstanding :: string where
  "msg_success_outstanding =
     [CHR 0xF0, CHR 0x9F, CHR 0x92, CHR 0xAA] @
     '' OUTSTANDING: 99.9%+ success rate - extremely reliable''"

definition msg_success_excellent :: string where
  "msg_success_excellent =
     [CHR 0xE2, CHR 0x9C, CHR 0x85] @
     '' EXCELLENT: 99%+ success rate - very reliable''"

definition msg_success_good :: string where
  "msg_success_good =
     [CHR 0xE2, CHR 0x9A, CHR 0xA0, CHR 0xEF, CHR 0xB8, CHR 0x8F] @
     ''  GOOD: 95%+ success rate - monitor error patterns''"

definition msg_success_investigate :: string where
  "msg_success_investigate =
     [CHR 0xE2, CHR 0x9D, CHR 0x8C] @
     '' INVESTIGATE: Success rate below 95% - check error logs''"

definition msg_cambridge_validation :: string where
  "msg_cambridge_validation =
     [CHR 0xF0, CHR 0x9F, CHR 0x8E, CHR 0x93] @
     '' CAMBRIDGE VALIDATION: Local-first architecture demonstrates superior performance''"

definition msg_competitive_advantage :: string where
  "msg_competitive_advantage =
     [CHR 0xE2, CHR 0x9A, CHR 0xA1] @
     '' COMPETITIVE ADVANTAGE: 5-20x faster than typical cloud solutions''"

text \<open>
  \<open>generateRecommendations(responseTimes, successRate)\<close>. On an empty array the mean
  is \<open>0 / 0 = NaN\<close>, and every comparison with \<open>NaN\<close> is false: \<open>avg_lt\<close> carries that
  case. \<open>successRate\<close> is the fraction in \<open>[0, 1]\<close>, not the percentage.
\<close>

definition generateRecommendations :: "number list \<Rightarrow> number \<Rightarrow> string list" where
  "generateRecommendations responseTimes successRate =
     (let avgResponseTime = mean_of responseTimes;
          avg_lt = (\<lambda>bound. responseTimes \<noteq> [] \<and> avgResponseTime < bound);
          p95ResponseTime =
            at_or_zero responseTimes (percentileIndex (length responseTimes) lit_0_95)
      in [if avg_lt 50 then msg_mean_excellent
          else if avg_lt 100 then msg_mean_good
          else if avg_lt 200 then msg_mean_fair
          else msg_mean_needs_improvement]
         @ [if p95ResponseTime < 100 then msg_p95_consistent
            else if p95ResponseTime < 200 then msg_p95_good
            else msg_p95_high]
         @ [if lit_0_999 \<le> successRate then msg_success_outstanding
            else if lit_0_99 \<le> successRate then msg_success_excellent
            else if lit_0_95 \<le> successRate then msg_success_good
            else msg_success_investigate]
         @ (if avg_lt 100 \<and> lit_0_99 < successRate
            then [msg_cambridge_validation, msg_competitive_advantage] else []))"

section \<open>Metric samples and the report\<close>

record PerformanceMetric =
  endpoint :: string
  method_name :: string
  responseTime :: number
  statusCode :: int
  contentLength :: nat
  timestamp :: int

record Summary =
  totalRequests :: nat
  averageResponseTime :: number
  p50ResponseTime :: number
  p95ResponseTime :: number
  p99ResponseTime :: number
  minResponseTime :: number
  maxResponseTime :: number
  successRate :: number
  errorRate :: number

record EndpointBreakdown =
  requests :: nat
  avgResponseTime :: number
  p95ResponseTime_ep :: number
  successRate_ep :: number

text \<open>
  \<open>endpointBreakdown\<close> is a \<^verbatim>\<open>Record<string, ...>\<close>, a dictionary from endpoint
  paths to entries. Its own properties are listed here in the order in which the loop
  creates them; the order in which \<^verbatim>\<open>Object.entries\<close> enumerates them differs only
  for keys that are array indices, and nothing computed from the dictionary depends on
  it.
\<close>

record PerformanceReport =
  summary :: Summary
  endpointBreakdown :: "(string \<times> EndpointBreakdown) list"
  timeSeriesData :: "PerformanceMetric list"
  recommendations :: "string list"

text \<open>
  \<^verbatim>\<open>throw new Error(message)\<close> is \<open>Error message\<close>; \<open>TypeError\<close> is the error of
  the runtime when a property of \<^verbatim>\<open>undefined\<close> is read, \<open>RangeError\<close> its error
  when a call is given more arguments than its stack holds.
\<close>

datatype error = Error string | TypeError string | RangeError string

definition is_success :: "PerformanceMetric \<Rightarrow> bool" where
  "is_success r \<longleftrightarrow> 200 \<le> statusCode r \<and> statusCode r < 400"

section \<open>The report generator\<close>

text \<open>
  \<open>endpointStats\<close> is a plain object literal \<^verbatim>\<open>{}\<close> used as a dictionary. Reading
  \<^verbatim>\<open>endpointStats[key]\<close> finds the object's own property if there is one, and otherwise
  looks in \<^verbatim>\<open>Object.prototype\<close>, whose methods are the keys below. (Deno, the runtime
  of the script, removes the \<^verbatim>\<open>__proto__\<close> accessor, so that key is an ordinary one.)
\<close>

record EndpointStats =
  st_requests :: nat
  st_responseTimes :: "number list"
  st_successCount :: nat

definition object_prototype_keys :: "string list" where
  "object_prototype_keys =
     [''constructor'', ''hasOwnProperty'', ''isPrototypeOf'', ''propertyIsEnumerable'',
      ''toLocaleString'', ''toString'', ''valueOf'', ''__defineGetter__'',
      ''__defineSetter__'', ''__lookupGetter__'', ''__lookupSetter__'']"

definition record_sample :: "PerformanceMetric \<Rightarrow> EndpointStats \<Rightarrow> EndpointStats" where
  "record_sample r st =
     st\<lparr>st_requests := st_requests st + 1,
        st_responseTimes := st_responseTimes st @ [responseTime r],
        st_successCount := (if is_success r then st_successCount st + 1
                            else st_successCount st)\<rparr>"

definition fresh_stats :: EndpointStats where
  "fresh_stats = \<lparr>st_requests = 0, st_responseTimes = [], st_successCount = 0\<rparr>"

text \<open>
  One iteration of the loop over \<open>this.results\<close>. An own entry is updated in place. With
  no own entry, an inherited method makes \<^verbatim>\<open>!endpointStats[key]\<close> false, so nothing is
  created, and \<^verbatim>\<open>endpointStats[key].responseTimes.push\<close> reads \<^verbatim>\<open>push\<close> of
  \<^verbatim>\<open>undefined\<close>; any other key gets a fresh entry first.
\<close>

definition add_sample ::
  "(string \<times> EndpointStats) list \<Rightarrow> PerformanceMetric \<Rightarrow>
   error + (string \<times> EndpointStats) list" where
  "add_sample stats r =
     (case map_of stats (endpoint r) of
        Some st \<Rightarrow>
          Inr (map (\<lambda>(k, s). if k = endpoint r then (k, record_sample r s) else (k, s)) stats)
      | None \<Rightarrow>
          if endpoint r \<in> set object_prototype_keys
          then Inl (TypeError ''Cannot read properties of undefined (reading 'push')'')
          else Inr (stats @ [(endpoint r, record_sample r fresh_stats)]))"

fun collect_stats ::
  "(string \<times> EndpointStats) list \<Rightarrow> PerformanceMetric list \<Rightarrow>
   error + (string \<times> EndpointStats) list" where
  "collect_stats stats [] = Inr stats"
| "collect_stats stats (r # rs) =
     (case add_sample stats r of Inl e \<Rightarrow> Inl e | Inr stats' \<Rightarrow> collect_stats stats' rs)"

definition breakdown_entry :: "EndpointStats \<Rightarrow> EndpointBreakdown" where
  "breakdown_entry st =
     (let times = sort (st_responseTimes st);
          p95 = at_or_zero times (percentileIndex (length times) lit_0_95)
      in \<lparr>requests = st_requests st,
          avgResponseTime = fdiv (sum_reduce times) (of_nat (length times)),
          p95ResponseTime_ep = p95,
          successRate_ep =
            fmul (fdiv (of_nat (st_successCount st)) (of_nat (st_requests st))) 100\<rparr>)"

text \<open>
  \<open>generateReport\<close>, with \<open>this.results\<close> as its second argument. The comparator
  \<^verbatim>\<open>(a, b) => a - b\<close> orders numbers ascending.

  \<^verbatim>\<open>Math.min(...responseTimes)\<close> and \<^verbatim>\<open>Math.max(...responseTimes)\<close> spread the
  whole array into the arguments of one call. The engine puts the arguments of a call on
  its stack and throws a \<open>RangeError\<close> when there are too many. How many a call may take
  is a constant of the engine and its stack size, not of the source, so it is the
  parameter \<open>argLimit\<close>. The spread is evaluated while the returned object is built,
  after the loop over the samples and after the recommendations; within the limit the
  two calls fold \<open>min\<close> and \<open>max\<close> over the non-empty sorted array.
\<close>

definition generateReport ::
  "nat \<Rightarrow> PerformanceMetric list \<Rightarrow> error + PerformanceReport" where
  "generateReport argLimit results =
     (if length results = 0 then Inl (Error ''No test results available'')
      else
        let successfulRequests = filter is_success results;
            responseTimes = sort (map responseTime successfulRequests)
        in case responseTimes of
             [] \<Rightarrow> Inl (Error ''No successful requests for analysis'')
           | t # ts \<Rightarrow>
               let totalRequests' = length results;
                   p50Index = percentileIndex (length responseTimes) lit_0_5;
                   p95Index = percentileIndex (length responseTimes) lit_0_95;
                   p99Index = percentileIndex (length responseTimes) lit_0_99
               in case collect_stats [] results of
                    Inl e \<Rightarrow> Inl e
                  | Inr endpointStats \<Rightarrow>
                      let successRate' =
                            fdiv (of_nat (length successfulRequests)) (of_nat totalRequests')
                      in if argLimit < length responseTimes
                         then Inl (RangeError ''Maximum call stack size exceeded'')
                         else
                         Inr \<lparr>summary =
                                \<lparr>totalRequests = totalRequests',
                                 averageResponseTime = mean_of responseTimes,
                                 p50ResponseTime = at_or_zero responseTimes p50Index,
                                 p95ResponseTime = at_or_zero responseTimes p95Index,
                                 p99ResponseTime = at_or_zero responseTimes p99Index,
                                 minResponseTime = fold min ts t,
                                 maxResponseTime = fold max ts t,
                                 successRate = fmul successRate' 100,
                                 errorRate =
                                   fmul (fdiv (of_nat (totalRequests' - length successfulRequests))
                                              (of_nat totalRequests')) 100\<rparr>,
                              endpointBreakdown =
                                map (\<lambda>(k, st). (k, breakdown_entry st)) endpointStats,
                              timeSeriesData = results,
                              recommendations =
                                generateRecommendations responseTimes successRate'\<rparr>)"

section \<open>The request prober\<close>

text \<open>
  What the network does to one request is the environment of \<open>testSingleRequest\<close>.
  Each outcome carries the reading of \<^verbatim>\<open>performance.now()\<close> at the moment the awaited
  promise settles: \<open>fetch\<close> resolves with a status once the response head has arrived,
  or rejects; \<^verbatim>\<open>response.text()\<close> then resolves with the whole body, or rejects.
  The body is the list of its UTF-16 code units, which \<^verbatim>\<open>content.length\<close> counts.
  These are the outcomes of a request that settles; the code sets no timeout of its own,
  and while a promise stays pending \<open>testSingleRequest\<close> has not returned yet.
\<close>

datatype body_result = BodyRead "nat list" number | BodyFailed number

datatype fetch_result = FetchResolved number int body_result | FetchRejected number

text \<open>
  The \<^verbatim>\<open>try\<close> block: \<open>Inl t\<close> is an exception thrown when the clock reads \<open>t\<close>.
  \<open>endTime\<close> is read as soon as \<open>fetch\<close> has resolved, before the body is awaited.
\<close>

definition try_block ::
  "number \<Rightarrow> fetch_result \<Rightarrow> int \<Rightarrow> string \<Rightarrow> string \<Rightarrow> number + PerformanceMetric" where
  "try_block startTime outcome dateNow endpoint' method' =
     (case outcome of
        FetchRejected t \<Rightarrow> Inl t
      | FetchResolved endTime status body \<Rightarrow>
          let responseTime' = fsub endTime startTime
          in case body of
               BodyFailed t \<Rightarrow> Inl t
             | BodyRead content t \<Rightarrow>
                 Inr \<lparr>endpoint = endpoint', method_name = method',
                      responseTime = responseTime', statusCode = status,
                      contentLength = length content, timestamp = dateNow\<rparr>)"

text \<open>
  \<open>testSingleRequest\<close>: \<open>startTime\<close> is the reading at dispatch, \<open>dateNow\<close> the
  value of \<^verbatim>\<open>Date.now()\<close> when the sample is built. The \<^verbatim>\<open>catch\<close> block reads the
  clock again and builds the sample with the sentinel status.
\<close>

definition testSingleRequest ::
  "number \<Rightarrow> fetch_result \<Rightarrow> int \<Rightarrow> string \<Rightarrow> string \<Rightarrow> error + PerformanceMetric" where
  "testSingleRequest startTime outcome dateNow endpoint' method' =
     (case try_block startTime outcome dateNow endpoint' method' of
        Inr sample \<Rightarrow> Inr sample
      | Inl endTime \<Rightarrow>
          Inr \<lparr>endpoint = endpoint', method_name = method',
               responseTime = fsub endTime startTime, statusCode = 0,
               contentLength = 0, timestamp = dateNow\<rparr>)"

section \<open>The endpoint catalog and the weighted selector\<close>

record EndpointDescriptor =
  path :: string
  method_ep :: string
  weight :: number
  description :: string

definition getTestEndpoints :: "EndpointDescriptor list" where
  "getTestEndpoints =
     [\<lparr>path = ''/'', method_ep = ''GET'', weight = 20, description = ''Home page (Static)''\<rparr>,
      \<lparr>path = ''/api/analytics'', method_ep = ''GET'', weight = 15,
       description = ''Analytics data''\<rparr>,
      \<lparr>path = ''/api/blogs'', method_ep = ''GET'', weight = 15,
       description = ''Blog content API''\<rparr>,
      \<lparr>path = ''/api/projects'', method_ep = ''GET'', weight = 15,
       description = ''Projects portfolio API''\<rparr>,
      \<lparr>path = ''/api/settings'', method_ep = ''GET'', weight = 15,
       description = ''Settings API''\<rparr>,
      \<lparr>path = ''/api/roadmap'', method_ep = ''GET'', weight = 10,
       description = ''Product roadmap API''\<rparr>,
      \<lparr>path = ''/api/system'', method_ep = ''GET'', weight = 3,
       description = ''System information''\<rparr>,
      \<lparr>path = ''/api/appointments'', method_ep = ''GET'', weight = 6,
       description = ''Appointments API (Protected)''\<rparr>,
      \<lparr>path = ''/api/contact'', method_ep = ''GET'', weight = 4,
       description = ''Contact form API (Protected)''\<rparr>,
      \<lparr>path = ''/health'', method_ep = ''GET'', weight = 10,
       description = ''Health check endpoint''\<rparr>]"

text \<open>
  The \<^verbatim>\<open>for ... of\<close> loop of \<open>selectRandomEndpoint\<close>: \<open>None\<close> when the loop runs off
  the end of the catalog without returning.
\<close>

fun walk :: "number \<Rightarrow> EndpointDescriptor list \<Rightarrow> EndpointDescriptor option" where
  "walk random [] = None"
| "walk random (ep # eps) =
     (let random' = fsub random (weight ep)
      in if random' \<le> 0 then Some ep else walk random' eps)"

text \<open>
  The selector over a catalog, given the draw \<^verbatim>\<open>Math.random() * totalWeight\<close>. The
  fallback \<^verbatim>\<open>endpoints[0]\<close> is \<^verbatim>\<open>undefined\<close> (\<open>None\<close>) on an empty array.
\<close>

definition select_draw :: "EndpointDescriptor list \<Rightarrow> number \<Rightarrow> EndpointDescriptor option" where
  "select_draw endpoints random =
     (case walk random endpoints of
        Some ep \<Rightarrow> Some ep
      | None \<Rightarrow> (case endpoints of [] \<Rightarrow> None | ep # _ \<Rightarrow> Some ep))"

definition totalWeight :: "EndpointDescriptor list \<Rightarrow> number" where
  "totalWeight endpoints = foldl (\<lambda>sum ep. fadd sum (weight ep)) 0 endpoints"

text \<open>\<open>selectRandomEndpoint\<close>, with the value of \<^verbatim>\<open>Math.random()\<close> as its argument.\<close>

definition selectRandomEndpoint :: "number \<Rightarrow> EndpointDescriptor option" where
  "selectRandomEndpoint u =
     select_draw getTestEndpoints (fmul u (totalWeight getTestEndpoints))"

section \<open>The quick benchmark\<close>

text \<open>
  The environment of one iteration: the value of \<^verbatim>\<open>Math.random()\<close> and what the
  prober meets. The state is \<open>this.results\<close> together with the value \<open>i + 1\<close> of every
  progress line written so far.
\<close>

record iteration_env =
  random_draw :: number
  probe_start :: number
  probe_outcome :: fetch_result
  probe_date :: int

record bench_state =
  run_results :: "PerformanceMetric list"
  run_progress :: "nat list"

text \<open>\<^verbatim>\<open>Math.max(1, Math.floor(requests / 10))\<close>.\<close>

definition progressInterval :: "nat \<Rightarrow> nat" where
  "progressInterval requests' = max 1 (nat \<lfloor>fdiv (of_nat requests') 10\<rfloor>)"

function quick_loop ::
  "nat \<Rightarrow> (nat \<Rightarrow> iteration_env) \<Rightarrow> nat \<Rightarrow> bench_state \<Rightarrow> error + bench_state" where
  "quick_loop requests' env i st =
     (if i < requests' then
        (case selectRandomEndpoint (random_draw (env i)) of
           None \<Rightarrow> Inl (TypeError ''Cannot read properties of undefined (reading 'path')'')
         | Some ep \<Rightarrow>
             (case testSingleRequest (probe_start (env i)) (probe_outcome (env i))
                     (probe_date (env i)) (path ep) (method_ep ep) of
                Inl e \<Rightarrow> Inl e
              | Inr result \<Rightarrow>
                  quick_loop requests' env (Suc i)
                    \<lparr>run_results = run_results st @ [result],
                     run_progress =
                       (if (i + 1) mod progressInterval requests' = 0
                        then run_progress st @ [i + 1] else run_progress st)\<rparr>))
      else Inr st)"
  by pat_completeness auto
termination
  by (relation "measure (\<lambda>(requests', env, i, st). requests' - i)") auto

declare quick_loop.simps [simp del]

definition runQuickBenchmark ::
  "nat \<Rightarrow> nat \<Rightarrow> (nat \<Rightarrow> iteration_env) \<Rightarrow> error + (nat list \<times> PerformanceReport)" where
  "runQuickBenchmark argLimit requests' env =
     (case quick_loop requests' env 0 \<lparr>run_results = [], run_progress = []\<rparr> of
        Inl e \<Rightarrow> Inl e
      | Inr st \<Rightarrow>
          (case generateReport argLimit (run_results st) of
             Inl e \<Rightarrow> Inl e
           | Inr report \<Rightarrow> Inr (run_progress st, report)))"

section \<open>The specification's wording, as definitions\<close>

text \<open>
  The rule ladder of the recommendations as the specification words it: three
  first-match ladders over the mean, the 95th percentile and the success rate (as a
  fraction: 99.9% is the literal \<open>0.999\<close>), and two further messages when the mean is
  under 100 ms and the success rate above 99%.
\<close>

definition spec_mean_message :: "number \<Rightarrow> string" where
  "spec_mean_message mean =
     (if mean < 50 then msg_mean_excellent
      else if mean < 100 then msg_mean_good
      else if mean < 200 then msg_mean_fair
      else msg_mean_needs_improvement)"

definition spec_p95_message :: "number \<Rightarrow> string" where
  "spec_p95_message p95 =
     (if p95 < 100 then msg_p95_consistent
      else if p95 < 200 then msg_p95_good
      else msg_p95_high)"

definition spec_success_message :: "number \<Rightarrow> string" where
  "spec_success_message rate =
     (if lit_0_999 \<le> rate then msg_success_outstanding
      else if lit_0_99 \<le> rate then msg_success_excellent
      else if lit_0_95 \<le> rate then msg_success_good
      else msg_success_investigate)"

definition spec_recommendations :: "number \<Rightarrow> number \<Rightarrow> number \<Rightarrow> string list" where
  "spec_recommendations mean p95 rate =
     [spec_mean_message mean, spec_p95_message p95, spec_success_message rate]
     @ (if mean < 100 \<and> lit_0_99 < rate
        then [msg_cambridge_validation, msg_competitive_advantage] else [])"

definition mean_ladder :: "string list" where
  "mean_ladder =
     [msg_mean_excellent, msg_mean_good, msg_mean_fair, msg_mean_needs_improvement]"

definition p95_ladder :: "string list" where
  "p95_ladder = [msg_p95_consistent, msg_p95_good, msg_p95_high]"

definition success_ladder :: "string list" where
  "success_ladder =
     [msg_success_outstanding, msg_success_excellent, msg_success_good,
      msg_success_investigate]"

definition bonus_messages :: "string list" where
  "bonus_messages = [msg_cambridge_validation, msg_competitive_advantage]"

text \<open>
  The weighted selector as the specification words it: the running remainders of the
  draw after each entry's weight, the first entry whose remainder is zero or below, and
  the first entry of the catalog when there is none.
\<close>

fun remainders :: "number \<Rightarrow> EndpointDescriptor list \<Rightarrow> number list" where
  "remainders random [] = []"
| "remainders random (ep # eps) =
     fsub random (weight ep) # remainders (fsub random (weight ep)) eps"

definition spec_select :: "EndpointDescriptor list \<Rightarrow> number \<Rightarrow> EndpointDescriptor option" where
  "spec_select endpoints random =
     (let k = length (takeWhile (\<lambda>remainder. 0 < remainder) (remainders random endpoints))
      in if k < length endpoints then Some (endpoints ! k)
         else if endpoints = [] then None else Some (endpoints ! 0))"

text \<open>
  The array \<open>responseTimes\<close> of \<open>generateReport\<close>: the response times of the
  successful samples, sorted ascending. \<open>group_of\<close> is the group of one endpoint: all
  samples, successful or not, whose \<open>endpoint\<close> field is the given path.
\<close>

definition successful_times :: "PerformanceMetric list \<Rightarrow> number list" where
  "successful_times results = sort (map responseTime (filter is_success results))"

definition group_of :: "string \<Rightarrow> PerformanceMetric list \<Rightarrow> PerformanceMetric list" where
  "group_of e results = filter (\<lambda>r. endpoint r = e) results"

text \<open>
  The breakdown entry of a group as the specification words it: the request count, the
  mean response time over all samples of the group, the 95th percentile by the
  nearest-rank rule over the group's sorted times, and the group's success rate.
\<close>

definition spec_group_breakdown :: "PerformanceMetric list \<Rightarrow> EndpointBreakdown" where
  "spec_group_breakdown g =
     (let times = sort (map responseTime g)
      in \<lparr>requests = length g,
          avgResponseTime = mean_of times,
          p95ResponseTime_ep = times ! percentileIndex (length g) lit_0_95,
          successRate_ep =
            fmul (fdiv (of_nat (length (filter is_success g))) (of_nat (length g))) 100\<rparr>)"

text \<open>
  The progress rule as the specification words it: a progress line at every iteration
  whose 1-based index is a multiple of the ceiling of \<open>count / 10\<close>.
\<close>

definition spec_progress_iterations :: "nat \<Rightarrow> nat list" where
  "spec_progress_iterations n =
     filter (\<lambda>k. k mod nat \<lceil>(of_nat n :: rat) / 10\<rceil> = 0) [1..<Suc n]"

text \<open>A path begins with a slash, as every entry of the catalogs does.\<close>

definition is_path :: "string \<Rightarrow> bool" where
  "is_path e = (case e of [] \<Rightarrow> False | c # _ \<Rightarrow> c = CHR ''/'')"

section \<open>Concrete inputs\<close>

definition sample_of :: "string \<Rightarrow> string \<Rightarrow> int \<Rightarrow> number \<Rightarrow> PerformanceMetric" where
  "sample_of e m status t =
     \<lparr>endpoint = e, method_name = m, responseTime = t, statusCode = status,
      contentLength = 0, timestamp = 0\<rparr>"

definition five_samples :: "PerformanceMetric list" where
  "five_samples = map (sample_of ''/'' ''GET'' 200) [50, 10, 40, 20, 30]"

definition ten_samples :: "PerformanceMetric list" where
  "ten_samples =
     replicate 8 (sample_of ''/'' ''GET'' 200 10) @ replicate 2 (sample_of ''/'' ''GET'' 500 10)"

definition failed_samples :: "PerformanceMetric list" where
  "failed_samples = [sample_of ''/'' ''GET'' 0 7, sample_of ''/health'' ''GET'' 500 12]"

definition mixed_samples :: "PerformanceMetric list" where
  "mixed_samples =
     [sample_of ''/a'' ''GET'' 200 10, sample_of ''/a'' ''POST'' 500 30,
      sample_of ''/b'' ''GET'' 200 20]"

definition refused_env :: "nat \<Rightarrow> iteration_env" where
  "refused_env i =
     \<lparr>random_draw = 0, probe_start = 0, probe_outcome = FetchRejected 3, probe_date = 0\<rparr>"

definition healthy_env :: "nat \<Rightarrow> iteration_env" where
  "healthy_env i =
     \<lparr>random_draw = 0, probe_start = 0,
      probe_outcome = FetchResolved 5 200 (BodyRead [111, 107] 12), probe_date = 0\<rparr>"

definition initial_state :: bench_state where
  "initial_state = \<lparr>run_results = [], run_progress = []\<rparr>"

section \<open>Rounding to the nearest double\<close>

text \<open>
  Three facts about \<open>fl\<close> carry the arithmetic of the claims: the relative error of
  a rounding is at most \<open>2\<close> to the power \<open>-53\<close>, below \<open>2 ^ 53\<close> every integer is
  a double (so rounding never crosses an integer), and a value within half a unit in the
  last place of an integer rounds to it. From them: the percentile indices are in range
  and, for every array length, the exact floors; \<open>floor (n / 10)\<close> is exact; and the two
  rates of the summary add up to 100 within rounding.
\<close>

lemma pow2_powi: "pow2 e = 2 powi e"
  by (simp add: pow2_def power_int_def power_divide inverse_eq_divide)

lemma pow2_pos: "0 < pow2 e"
  by (simp add: pow2_powi)

lemma pow2_add: "pow2 (a + b) = pow2 a * pow2 b"
  by (simp add: pow2_powi power_int_add)

lemma pow2_mono: "a \<le> b \<Longrightarrow> pow2 a \<le> pow2 b"
  by (simp add: pow2_powi power_int_increasing)

lemma pow2_nat: "0 \<le> e \<Longrightarrow> pow2 e = 2 ^ nat e"
  by (simp add: pow2_def)

lemma ilog2_bounds:
  assumes "0 < x"
  shows "pow2 (ilog2 x) \<le> x" and "x < pow2 (ilog2 x + 1)"
proof -
  obtain p q where pq: "quotient_of x = (p, q)"
    by (cases "quotient_of x")
  have q: "0 < q" using pq by (rule quotient_of_denom_pos)
  have x: "x = of_int p / of_int q" using pq by (rule quotient_of_div)
  have p: "0 < p" using assms q unfolding x by (simp add: zero_less_divide_iff)
  define bp where "bp = bitlen p"
  define bq where "bq = bitlen q"
  have bp: "2 ^ nat (bp - 1) \<le> p" "p < 2 ^ nat bp"
    using bitlen_bounds [OF p] by (simp_all add: bp_def)
  have bq: "2 ^ nat (bq - 1) \<le> q" "q < 2 ^ nat bq"
    using bitlen_bounds [OF q] by (simp_all add: bq_def)
  have bp1: "1 \<le> bp" using p bp by (cases "bp \<le> 0") auto
  have bq1: "1 \<le> bq" using q bq by (cases "bq \<le> 0") auto
  have P1: "pow2 (bp - 1) \<le> of_int p"
    using bp(1) bp1 of_int_le_iff [where ?'a = rat, of "2 ^ nat (bp - 1)" p]
    by (simp add: pow2_nat)
  have P2: "of_int p < pow2 bp"
    using bp(2) bp1 of_int_less_iff [where ?'a = rat, of p "2 ^ nat bp"]
    by (simp add: pow2_nat)
  have Q1: "pow2 (bq - 1) \<le> of_int q"
    using bq(1) bq1 of_int_le_iff [where ?'a = rat, of "2 ^ nat (bq - 1)" q]
    by (simp add: pow2_nat)
  have Q2: "of_int q < pow2 bq"
    using bq(2) bq1 of_int_less_iff [where ?'a = rat, of q "2 ^ nat bq"]
    by (simp add: pow2_nat)
  have qpos: "(0::rat) < of_int q" using q by simp
  have up: "x < pow2 (bp - bq + 1)"
  proof -
    have "pow2 (bp - bq + 1) * pow2 (bq - 1) = pow2 bp"
      by (simp add: pow2_add [symmetric])
    then have "of_int p < pow2 (bp - bq + 1) * pow2 (bq - 1)" using P2 by simp
    also have "\<dots> \<le> pow2 (bp - bq + 1) * of_int q"
      using Q1 pow2_pos [of "bp - bq + 1"] by (simp add: mult_left_mono)
    finally show ?thesis using qpos by (simp add: x pos_divide_less_eq)
  qed
  have lo: "pow2 (bp - bq - 1) < x"
  proof -
    have "pow2 (bp - bq - 1) * pow2 bq = pow2 (bp - 1)"
      by (simp add: pow2_add [symmetric])
    have "pow2 (bp - bq - 1) * of_int q < pow2 (bp - bq - 1) * pow2 bq"
      using Q2 pow2_pos [of "bp - bq - 1"] by (simp add: mult_strict_left_mono)
    also have "\<dots> = pow2 (bp - 1)" by (simp add: pow2_add [symmetric])
    also have "\<dots> \<le> of_int p" by (rule P1)
    finally show ?thesis using qpos by (simp add: x pos_less_divide_eq)
  qed
  have il: "ilog2 x = (if pow2 (bp - bq) \<le> x then bp - bq else bp - bq - 1)"
    by (simp add: ilog2_def pq bp_def bq_def Let_def)
  show "pow2 (ilog2 x) \<le> x"
    using lo by (simp add: il)
  show "x < pow2 (ilog2 x + 1)"
    using up by (auto simp: il not_le)
qed

lemma round_half_even_error: "\<bar>of_int (round_half_even y) - y\<bar> \<le> 1 / 2"
proof -
  have "of_int \<lfloor>y\<rfloor> \<le> y" "y < of_int \<lfloor>y\<rfloor> + 1" by linarith+
  then show ?thesis
    by (auto simp: round_half_even_def Let_def)
qed

lemma round_half_even_ge: "of_int j \<le> y \<Longrightarrow> j \<le> round_half_even y"
proof -
  assume "of_int j \<le> y"
  then have "j \<le> \<lfloor>y\<rfloor>" by (simp add: le_floor_iff)
  then show ?thesis by (auto simp: round_half_even_def Let_def)
qed

lemma round_half_even_le: "y \<le> of_int j \<Longrightarrow> round_half_even y \<le> j"
proof (cases "y = of_int j")
  case True
  then show ?thesis by (simp add: round_half_even_def Let_def)
next
  case False
  assume "y \<le> of_int j"
  with False have "y < of_int j" by simp
  then have "\<lfloor>y\<rfloor> < j" by (simp add: floor_less_iff)
  then show ?thesis by (auto simp: round_half_even_def Let_def)
qed

lemma round_half_even_ge_near: "of_int j - 1 / 2 < y \<Longrightarrow> j \<le> round_half_even y"
proof -
  assume a: "of_int j - 1 / 2 < y"
  have f: "of_int \<lfloor>y\<rfloor> \<le> y" "y < of_int \<lfloor>y\<rfloor> + 1" by linarith+
  show ?thesis
  proof (cases "j \<le> \<lfloor>y\<rfloor>")
    case True
    then show ?thesis by (auto simp: round_half_even_def Let_def)
  next
    case False
    then have "\<lfloor>y\<rfloor> \<le> j - 1" by simp
    then have "(of_int \<lfloor>y\<rfloor> :: rat) \<le> of_int j - 1"
      by (metis of_int_le_iff of_int_diff of_int_1)
    with a have "1 / 2 < y - of_int \<lfloor>y\<rfloor>" by linarith
    moreover have "j - 1 \<le> \<lfloor>y\<rfloor>" using a by (simp add: le_floor_iff) 
    ultimately show ?thesis using False by (auto simp: round_half_even_def Let_def)
  qed
qed

lemma fl_pos:
  assumes "0 < x"
  shows "fl x = of_int (round_half_even (x / pow2 (max (ilog2 x) (- 1022) - 52)))
                * pow2 (max (ilog2 x) (- 1022) - 52)"
  using assms by (simp add: fl_def Let_def)

lemma fl_error:
  assumes "pow2 (- 1022) \<le> x"
  shows "\<bar>fl x - x\<bar> \<le> x / 2 ^ 53"
proof -
  have x: "0 < x" using assms pow2_pos [of "- 1022"] by linarith
  define e where "e = ilog2 x"
  have e: "pow2 e \<le> x" "x < pow2 (e + 1)"
    using ilog2_bounds [OF x] by (simp_all add: e_def)
  have "pow2 (- 1022) < pow2 (e + 1)" using assms e(2) by linarith
  then have "- 1022 < e + 1"
    using pow2_mono [of "e + 1" "- 1022"] by (cases "- 1022 < e + 1") auto
  then have m: "max e (- 1022) = e" by simp
  define u where "u = pow2 (e - 52)"
  have u: "0 < u" by (simp add: u_def pow2_pos)
  have fx: "fl x = of_int (round_half_even (x / u)) * u"
    using fl_pos [OF x] by (simp add: e_def [symmetric] m u_def)
  have "\<bar>of_int (round_half_even (x / u)) - x / u\<bar> \<le> 1 / 2"
    by (rule round_half_even_error)
  then have "\<bar>of_int (round_half_even (x / u)) - x / u\<bar> * u \<le> 1 / 2 * u"
    using u by (simp add: mult_right_mono)
  moreover have "\<bar>of_int (round_half_even (x / u)) - x / u\<bar> * u = \<bar>fl x - x\<bar>"
  proof -
    have "\<bar>of_int (round_half_even (x / u)) - x / u\<bar> * u
          = \<bar>(of_int (round_half_even (x / u)) - x / u) * u\<bar>"
      using u by (simp add: abs_mult)
    also have "(of_int (round_half_even (x / u)) - x / u) * u = fl x - x"
      using u by (simp add: fx algebra_simps)
    finally show ?thesis .
  qed
  moreover have "1 / 2 * u = pow2 e / 2 ^ 53"
  proof -
    have "pow2 e = pow2 (e - 52) * pow2 52" by (simp add: pow2_add [symmetric])
    then show ?thesis by (simp add: u_def pow2_def)
  qed
  moreover have "pow2 e / 2 ^ 53 \<le> x / 2 ^ 53"
    using e(1) by (simp add: divide_right_mono)
  ultimately show ?thesis by linarith
qed

lemma pow2_strict_mono: "a < b \<Longrightarrow> pow2 a < pow2 b"
  by (simp add: pow2_powi power_int_strict_increasing)

lemma ilog2_less:
  assumes "0 < x" and "x < pow2 b"
  shows "ilog2 x < b"
proof (rule ccontr)
  assume "\<not> ilog2 x < b"
  then have "pow2 b \<le> pow2 (ilog2 x)" by (simp add: pow2_mono)
  also have "\<dots> \<le> x" by (rule ilog2_bounds(1) [OF assms(1)])
  finally show False using assms(2) by simp
qed

lemma ilog2_ge:
  assumes "0 < x" and "pow2 a \<le> x"
  shows "a \<le> ilog2 x"
proof (rule ccontr)
  assume "\<not> a \<le> ilog2 x"
  then have "ilog2 x + 1 \<le> a" by simp
  then have "pow2 (ilog2 x + 1) \<le> pow2 a" by (rule pow2_mono)
  with ilog2_bounds(2) [OF assms(1)] assms(2) show False by simp
qed

lemma round_half_even_le_near: "y < of_int j + 1 / 2 \<Longrightarrow> round_half_even y \<le> j"
proof -
  assume a: "y < of_int j + 1 / 2"
  have f: "of_int \<lfloor>y\<rfloor> \<le> y" "y < of_int \<lfloor>y\<rfloor> + 1" by linarith+
  have fj: "\<lfloor>y\<rfloor> \<le> j" using a by (simp add: floor_le_iff)
  show ?thesis
  proof (cases "\<lfloor>y\<rfloor> = j")
    case True
    with a have "y - of_int \<lfloor>y\<rfloor> < 1 / 2" by simp
    then show ?thesis using True by (simp add: round_half_even_def Let_def)
  next
    case False
    with fj have "\<lfloor>y\<rfloor> + 1 \<le> j" by simp
    then show ?thesis by (auto simp: round_half_even_def Let_def)
  qed
qed

text \<open>Below \<open>2 ^ 53\<close> the grid of doubles contains every integer.\<close>

lemma fl_grid:
  assumes "0 < x" and "x < 2 ^ 53"
  obtains K :: int where "0 < K"
    and "fl x = of_int (round_half_even (x * of_int K)) / of_int K"
    and "1 / of_int K = pow2 (max (ilog2 x) (- 1022) - 52)"
proof -
  define e where "e = max (ilog2 x) (- 1022)"
  have "x < pow2 53" using assms(2) by (simp add: pow2_def)
  then have "ilog2 x < 53" by (rule ilog2_less [OF assms(1)])
  then have e: "e \<le> 52" by (simp add: e_def)
  define K :: int where "K = 2 ^ nat (52 - e)"
  have K: "0 < K" by (simp add: K_def)
  have u: "pow2 (e - 52) = 1 / of_int K"
  proof (cases "e = 52")
    case True
    then show ?thesis by (simp add: pow2_def K_def)
  next
    case False
    with e have "e - 52 < 0" by simp
    then show ?thesis by (simp add: pow2_def K_def)
  qed
  have "fl x = of_int (round_half_even (x * of_int K)) / of_int K"
    using fl_pos [OF assms(1)] by (simp add: e_def [symmetric] u)
  then show ?thesis using K u that by (simp add: e_def)
qed

lemma fl_int_lower:
  assumes "0 < x" and "x < 2 ^ 53" and "of_int q \<le> x"
  shows "of_int q \<le> fl x"
proof -
  obtain K :: int where K: "0 < K"
    and fx: "fl x = of_int (round_half_even (x * of_int K)) / of_int K"
    using fl_grid [OF assms(1,2)] by blast
  have "of_int (q * K) \<le> x * of_int K"
    using assms(3) K by (simp add: mult_right_mono)
  then have "q * K \<le> round_half_even (x * of_int K)" by (rule round_half_even_ge)
  then have "(of_int (q * K) :: rat) \<le> of_int (round_half_even (x * of_int K))"
    by (simp only: of_int_le_iff)
  then show ?thesis using K by (simp add: fx pos_le_divide_eq)
qed

lemma fl_round_up:
  assumes "0 < x" and "x < 2 ^ 53" and "pow2 (- 1022) \<le> x"
    and "of_int q - x < pow2 (ilog2 x - 53)"
  shows "of_int q \<le> fl x"
proof -
  obtain K :: int where K: "0 < K"
    and fx: "fl x = of_int (round_half_even (x * of_int K)) / of_int K"
    and u: "1 / of_int K = pow2 (max (ilog2 x) (- 1022) - 52)"
    using fl_grid [OF assms(1,2)] by blast
  have "- 1022 \<le> ilog2 x" by (rule ilog2_ge [OF assms(1,3)])
  then have u': "1 / of_int K = pow2 (ilog2 x - 52)" using u by (simp add: max_def)
  have "pow2 (ilog2 x - 52) = pow2 (ilog2 x - 53) * pow2 1"
    by (simp add: pow2_add [symmetric])
  then have half: "pow2 (ilog2 x - 53) = 1 / of_int K / 2"
    using u' by (simp add: pow2_def)
  have Kr: "(0::rat) < of_int K" using K by simp
  have "(of_int q - x) * of_int K < 1 / 2"
    using assms(4) Kr unfolding half by (simp add: field_simps)
  then have "of_int (q * K) - 1 / 2 < x * of_int K"
    by (simp add: algebra_simps)
  then have "q * K \<le> round_half_even (x * of_int K)" by (rule round_half_even_ge_near)
  then have "(of_int (q * K) :: rat) \<le> of_int (round_half_even (x * of_int K))"
    by (simp only: of_int_le_iff)
  then show ?thesis using K by (simp add: fx pos_le_divide_eq)
qed

lemma pow2_min_le_half: "pow2 (- 1022) \<le> 1 / 2"
proof -
  have "pow2 (- 1022) \<le> pow2 (- 1)" by (rule pow2_mono) simp
  then show ?thesis by (simp add: pow2_def)
qed

lemma fl_upper:
  assumes "1 / 2 \<le> x"
  shows "fl x \<le> x + x / 2 ^ 53"
proof -
  have "pow2 (- 1022) \<le> x" using assms pow2_min_le_half by linarith
  from fl_error [OF this] show ?thesis by linarith
qed

lemma percentileIndex_less:
  assumes "0 < n" and "1 / 2 \<le> p" and "p * (1 + 1 / 2 ^ 53) < 1"
  shows "percentileIndex n p < n"
proof -
  define x where "x = of_nat n * p"
  have n1: "(1::rat) \<le> of_nat n" using assms(1) by simp
  have p0: "0 < p" using assms(2) by linarith
  have "1 * p \<le> of_nat n * p" using n1 p0 by (intro mult_right_mono) simp_all
  then have "p \<le> x" by (simp add: x_def)
  then have x: "1 / 2 \<le> x" using assms(2) by linarith
  have "fl x \<le> x + x / 2 ^ 53" by (rule fl_upper [OF x])
  also have "\<dots> = of_nat n * (p * (1 + 1 / 2 ^ 53))" by (simp add: x_def algebra_simps)
  also have "\<dots> < of_nat n * 1"
    using assms(1,3) by (intro mult_strict_left_mono) simp_all
  finally have "fl x < of_int (int n)" by simp
  then have "\<lfloor>fl x\<rfloor> < int n" by (simp only: floor_less_iff)
  then show ?thesis using assms(1) by (simp add: percentileIndex_def fmul_def x_def)
qed

lemma lit_values:
  "lit_0_5 = 1 / 2"
  "lit_0_95 = 8556839292003942 / 9007199254740992"
  "lit_0_99 = 8917127262193582 / 9007199254740992"
  by code_simp+

lemma percentileIndex_in_bounds:
  assumes "0 < n"
  shows "percentileIndex n lit_0_5 < n"
    and "percentileIndex n lit_0_95 < n"
    and "percentileIndex n lit_0_99 < n"
  by (rule percentileIndex_less [OF assms]; simp add: lit_values)+

lemma percentileIndex_exact:
  fixes num den n :: nat and c :: rat
  assumes n: "0 < n" "n * den \<le> 2 ^ 53"
    and den: "0 < den" "num < den"
    and c: "1 / 2 \<le> c" "c \<le> of_nat num / of_nat den"
      "(of_nat num / of_nat den - c) * 2 ^ 54 \<le> c"
  shows "percentileIndex n c = (n * num) div den"
proof -
  define p :: rat where "p = of_nat num / of_nat den"
  define x where "x = of_nat n * c"
  define k where "k = (n * num) div den"
  define j where "j = (n * num) mod den"
  define dl where "dl = p - c"
  have denr: "(0::rat) < of_nat den" using den(1) by simp
  have nr: "(1::rat) \<le> of_nat n" using n(1) by simp
  have c0: "0 < c" using c(1) by linarith
  have "of_nat (n * num) = (of_nat (k * den + j) :: rat)"
    by (simp only: k_def j_def div_mult_mod_eq)
  then have np: "of_nat n * p = of_nat k + of_nat j / of_nat den"
    using denr by (simp add: p_def field_simps)
  have jlt: "j < den" using den(1) by (simp add: j_def)
  have "1 * c \<le> of_nat n * c" using nr c0 by (intro mult_right_mono) simp_all
  then have "c \<le> x" by (simp add: x_def)
  then have xh: "1 / 2 \<le> x" using c(1) by linarith
  then have x0: "0 < x" by linarith
  have xnp: "x = of_nat n * p - of_nat n * dl" by (simp add: x_def dl_def algebra_simps)
  have dl0: "0 \<le> dl" using c(2) by (simp add: dl_def p_def)
  have dl1: "dl * 2 ^ 54 \<le> c" using c(3) by (simp add: dl_def p_def)
  have p1: "p < 1" using den by (simp add: p_def)
  have c1: "c < 1" using c(2) p1 by (simp add: p_def)
  have n53: "of_nat n / 2 ^ 53 \<le> 1 / (of_nat den :: rat)"
  proof -
    have "(of_nat (n * den) :: rat) \<le> of_nat (2 ^ 53)" using n(2) by (simp only: of_nat_le_iff)
    then show ?thesis using denr by (simp add: field_simps)
  qed
  have xn: "x < of_nat n"
  proof -
    have "of_nat n * c < of_nat n * 1" using n(1) c1 by (intro mult_strict_left_mono) simp_all
    then show ?thesis by (simp add: x_def)
  qed
  have nle: "(of_nat n :: rat) \<le> 2 ^ 53"
  proof -
    have "n * 1 \<le> n * den" using den(1) by (intro mult_le_mono2) simp
    then have "n \<le> n * den" by simp
    from this n(2) have "n \<le> 2 ^ 53" by (rule order_trans)
    then have "(of_nat n :: rat) \<le> of_nat (2 ^ 53)" by (simp only: of_nat_le_iff)
    then show ?thesis by simp
  qed
  have x53: "x < 2 ^ 53" using xn nle by linarith
  have upper: "fl x < of_int (int k) + 1"
  proof -
    have "fl x \<le> x + x / 2 ^ 53" by (rule fl_upper [OF xh])
    moreover have "x / 2 ^ 53 < 1 / of_nat den"
    proof -
      have "x / 2 ^ 53 < of_nat n / 2 ^ 53" using xn by (simp add: divide_strict_right_mono)
      with n53 show ?thesis by linarith
    qed
    moreover have "x \<le> of_nat k + 1 - 1 / of_nat den"
    proof -
      have "of_nat n * dl \<ge> 0" using dl0 by simp
      then have "x \<le> of_nat n * p" using xnp by linarith
      moreover have "of_nat j / (of_nat den :: rat) \<le> 1 - 1 / of_nat den"
      proof -
        have "j + 1 \<le> den" using jlt by simp
        then have "(of_nat (j + 1) :: rat) \<le> of_nat den" by (simp only: of_nat_le_iff)
        then show ?thesis using denr by (simp add: field_simps)
      qed
      ultimately show ?thesis using np by linarith
    qed
    ultimately show ?thesis by simp
  qed
  have lower: "of_int (int k) \<le> fl x"
  proof (cases "j = 0")
    case True
    then have "of_int (int k) - x = of_nat n * dl" using np xnp by simp
    also have "\<dots> \<le> of_nat n * (c / 2 ^ 54)"
      using dl1 by (intro mult_left_mono) (simp_all add: field_simps)
    also have "\<dots> = x / 2 ^ 54" by (simp add: x_def)
    also have "\<dots> < pow2 (ilog2 x + 1) / 2 ^ 54"
      using ilog2_bounds(2) [OF x0] by (simp add: divide_strict_right_mono)
    also have "\<dots> = pow2 (ilog2 x - 53)"
    proof -
      have "ilog2 x + 1 = (ilog2 x - 53) + 54" by simp
      then have "pow2 (ilog2 x + 1) = pow2 (ilog2 x - 53) * pow2 54"
        by (simp only: pow2_add)
      then show ?thesis by (simp add: pow2_def)
    qed
    finally have "of_int (int k) - x < pow2 (ilog2 x - 53)" .
    moreover have "pow2 (- 1022) \<le> x" using xh pow2_min_le_half by linarith
    ultimately show ?thesis using fl_round_up [OF x0 x53] by blast
  next
    case False
    then have "1 \<le> j" by simp
    then have "(of_nat 1 :: rat) \<le> of_nat j" by (simp only: of_nat_le_iff)
    then have "1 / of_nat den \<le> of_nat j / (of_nat den :: rat)"
      using denr by (simp add: divide_right_mono)
    moreover have "of_nat n * dl \<le> 1 / of_nat den"
    proof -
      have "dl \<le> c / 2 ^ 54" using dl1 by (simp add: field_simps)
      also have "\<dots> \<le> 1 / 2 ^ 53" using c1 by simp
      finally have "of_nat n * dl \<le> of_nat n * (1 / 2 ^ 53)"
        by (intro mult_left_mono) simp_all
      with n53 show ?thesis by simp
    qed
    ultimately have "of_int (int k) \<le> x" using np xnp by simp
    then show ?thesis by (rule fl_int_lower [OF x0 x53])
  qed
  have "\<lfloor>fl x\<rfloor> = int k"
    using lower upper by (intro floor_unique) simp_all
  then show ?thesis by (simp add: percentileIndex_def fmul_def x_def k_def)
qed

lemma percentileIndex_exact_literals:
  assumes "n < 2 ^ 32"
  shows "percentileIndex n lit_0_5 = n div 2"
    and "percentileIndex n lit_0_95 = (n * 95) div 100"
    and "percentileIndex n lit_0_99 = (n * 99) div 100"
proof -
  have z: "percentileIndex 0 p = 0" for p
    by (simp add: percentileIndex_def fmul_def fl_def)
  have b: "n * 100 \<le> 2 ^ 53" "n * 2 \<le> 2 ^ 53" using assms by simp_all
  show "percentileIndex n lit_0_5 = n div 2"
  proof (cases "n = 0")
    case True then show ?thesis by (simp add: z)
  next
    case False
    then have "percentileIndex n lit_0_5 = (n * 1) div 2"
      using b by (intro percentileIndex_exact) (simp_all add: lit_values)
    then show ?thesis by simp
  qed
  show "percentileIndex n lit_0_95 = (n * 95) div 100"
  proof (cases "n = 0")
    case True then show ?thesis by (simp add: z)
  next
    case False
    then show ?thesis
      using b by (intro percentileIndex_exact) (simp_all add: lit_values)
  qed
  show "percentileIndex n lit_0_99 = (n * 99) div 100"
  proof (cases "n = 0")
    case True then show ?thesis by (simp add: z)
  next
    case False
    then show ?thesis
      using b by (intro percentileIndex_exact) (simp_all add: lit_values)
  qed
qed

lemma pow2_min_le_tenth: "pow2 (- 1022) \<le> 1 / 10"
proof -
  have "pow2 (- 1022) \<le> pow2 (- 4)" by (rule pow2_mono) simp
  then show ?thesis by (simp add: pow2_def)
qed

lemma floor_fdiv_10:
  assumes "n < 2 ^ 53"
  shows "nat \<lfloor>fdiv (of_nat n) 10\<rfloor> = n div 10"
proof (cases "n = 0")
  case True
  then show ?thesis by (simp add: fdiv_def fl_def)
next
  case False
  define x :: rat where "x = of_nat n / 10"
  define k where "k = n div 10"
  define j where "j = n mod 10"
  have "of_nat n = (of_nat (k * 10 + j) :: rat)"
    by (simp only: k_def j_def div_mult_mod_eq)
  then have xk: "x = of_nat k + of_nat j / 10" by (simp add: x_def)
  have "j \<le> 9" by (simp add: j_def)
  then have "(of_nat j :: rat) \<le> of_nat 9" by (simp only: of_nat_le_iff)
  then have j9: "of_nat j / (10::rat) \<le> 9 / 10" by simp
  have "1 \<le> n" using False by simp
  then have "(of_nat 1 :: rat) \<le> of_nat n" by (simp only: of_nat_le_iff)
  then have xl: "1 / 10 \<le> x" by (simp add: x_def)
  then have x0: "0 < x" by linarith
  have "(of_nat n :: rat) < of_nat (2 ^ 53)" using assms by (simp only: of_nat_less_iff)
  then have xu: "x < 2 ^ 53 / 10" by (simp add: x_def)
  then have x53: "x < 2 ^ 53" by simp
  have "pow2 (- 1022) \<le> x" using xl pow2_min_le_tenth by linarith
  from fl_error [OF this] have "fl x \<le> x + x / 2 ^ 53" by linarith
  moreover have "x / 2 ^ 53 < 1 / 10" using xu by (simp add: field_simps)
  moreover have "x \<le> of_nat k + 9 / 10" using xk j9 by linarith
  ultimately have "fl x < of_nat k + 1" by linarith
  then have upper: "fl x < of_int (int k) + 1" by simp
  have "of_int (int k) \<le> x" using xk by simp
  then have lower: "of_int (int k) \<le> fl x" by (rule fl_int_lower [OF x0 x53])
  have "\<lfloor>fl x\<rfloor> = int k" using lower upper by (intro floor_unique) simp_all
  then show ?thesis by (simp add: fdiv_def x_def k_def)
qed

lemma progressInterval_exact:
  "n < 2 ^ 53 \<Longrightarrow> progressInterval n = max 1 (n div 10)"
  by (simp add: progressInterval_def floor_fdiv_10)

lemma fl_rel_bounds:
  assumes "x = 0 \<or> pow2 (- 1022) \<le> x"
  shows "x * (1 - 1 / 2 ^ 53) \<le> fl x" and "fl x \<le> x * (1 + 1 / 2 ^ 53)"
proof -
  have "x * (1 - 1 / 2 ^ 53) \<le> fl x \<and> fl x \<le> x * (1 + 1 / 2 ^ 53)"
  proof (cases "x = 0")
    case True
    then show ?thesis by (simp add: fl_def)
  next
    case False
    with assms have px: "pow2 (- 1022) \<le> x" by simp
    define d where "d = x / 2 ^ 53"
    from fl_error [OF px] have "\<bar>fl x - x\<bar> \<le> d" by (simp add: d_def)
    then have "x - d \<le> fl x \<and> fl x \<le> x + d" by linarith
    moreover have "x * (1 - 1 / 2 ^ 53) = x - d" "x * (1 + 1 / 2 ^ 53) = x + d"
      by (simp_all add: algebra_simps d_def)
    ultimately show ?thesis by (simp only:)
  qed
  then show "x * (1 - 1 / 2 ^ 53) \<le> fl x" and "fl x \<le> x * (1 + 1 / 2 ^ 53)" by simp_all
qed

lemma percent_bounds:
  fixes s t :: nat
  assumes "0 < t" and "t < 2 ^ 32"
  defines "a \<equiv> (of_nat s / of_nat t :: rat)"
  shows "100 * a * (1 - 1 / 2 ^ 53) * (1 - 1 / 2 ^ 53) \<le> fmul (fdiv (of_nat s) (of_nat t)) 100"
    and "fmul (fdiv (of_nat s) (of_nat t)) 100 \<le> 100 * a * (1 + 1 / 2 ^ 53) * (1 + 1 / 2 ^ 53)"
proof -
  define lo :: rat where "lo = 1 - 1 / 2 ^ 53"
  define hi :: rat where "hi = 1 + 1 / 2 ^ 53"
  have lo: "1 / 2 \<le> lo" "0 \<le> lo" and hi: "0 \<le> hi" by (simp_all add: lo_def hi_def)
  have m: "pow2 (- 1022) \<le> 1 / 2 ^ 33"
  proof -
    have "pow2 (- 1022) \<le> pow2 (- 33)" by (rule pow2_mono) simp
    then show ?thesis by (simp add: pow2_def)
  qed
  have a0: "0 \<le> a" by (simp add: a_def)
  have a1: "a = 0 \<or> 1 / 2 ^ 32 \<le> a"
  proof (cases "s = 0")
    case True
    then show ?thesis by (simp add: a_def)
  next
    case False
    then have "1 \<le> s" by simp
    then have "(of_nat 1 :: rat) \<le> of_nat s" by (simp only: of_nat_le_iff)
    moreover have "t \<le> 2 ^ 32" using assms(2) by simp
    then have "(of_nat t :: rat) \<le> of_nat (2 ^ 32)" by (simp only: of_nat_le_iff)
    moreover have "(0::rat) < of_nat t" using assms(1) by simp
    ultimately have "1 / 2 ^ 32 \<le> a"
      by (simp add: a_def field_simps)
    then show ?thesis ..
  qed
  then have "a = 0 \<or> pow2 (- 1022) \<le> a" using m by auto
  from fl_rel_bounds [OF this] have fa: "a * lo \<le> fl a" "fl a \<le> a * hi"
    by (simp_all add: lo_def hi_def)
  define b where "b = fl a * 100"
  have b0: "0 \<le> b" using fa(1) a0 lo(2) by (simp add: b_def) (meson mult_nonneg_nonneg order_trans)
  have "b = 0 \<or> pow2 (- 1022) \<le> b"
  proof (cases "a = 0")
    case True
    then show ?thesis by (simp add: b_def fl_def)
  next
    case False
    with a1 have "1 / 2 ^ 32 \<le> a" by simp
    then have "1 / 2 ^ 32 * (1 / 2) \<le> a * lo" using lo(1) by (intro mult_mono) simp_all
    with fa(1) have "1 / 2 ^ 33 \<le> fl a" by simp
    then have "1 / 2 ^ 33 \<le> b" by (simp add: b_def)
    with m show ?thesis by simp
  qed
  from fl_rel_bounds [OF this] have fb: "b * lo \<le> fl b" "fl b \<le> b * hi"
    by (simp_all add: lo_def hi_def)
  have "100 * a * lo * lo = (a * lo * 100) * lo" by simp
  also have "\<dots> \<le> b * lo" using fa(1) lo(2) unfolding b_def by (intro mult_right_mono) simp_all
  also have "\<dots> \<le> fl b" by (rule fb(1))
  finally show "100 * a * (1 - 1 / 2 ^ 53) * (1 - 1 / 2 ^ 53)
      \<le> fmul (fdiv (of_nat s) (of_nat t)) 100"
    by (simp add: fmul_def fdiv_def b_def a_def lo_def)
  have "fl b \<le> b * hi" by (rule fb(2))
  also have "\<dots> \<le> (a * hi * 100) * hi"
    using fa(2) hi unfolding b_def by (intro mult_right_mono) simp_all
  also have "\<dots> = 100 * a * hi * hi" by simp
  finally show "fmul (fdiv (of_nat s) (of_nat t)) 100
      \<le> 100 * a * (1 + 1 / 2 ^ 53) * (1 + 1 / 2 ^ 53)"
    by (simp add: fmul_def fdiv_def b_def a_def hi_def)
qed

lemma rates_sum_to_100:
  fixes s t :: nat
  assumes "0 < t" and "t < 2 ^ 32" and "s \<le> t"
  shows "\<bar>fmul (fdiv (of_nat s) (of_nat t)) 100 + fmul (fdiv (of_nat (t - s)) (of_nat t)) 100
           - 100\<bar> \<le> 300 / 2 ^ 53"
proof -
  define a :: rat where "a = of_nat s / of_nat t"
  define a' :: rat where "a' = of_nat (t - s) / of_nat t"
  have t0: "(0::rat) < of_nat t" using assms(1) by simp
  have "s + (t - s) = t" using assms(3) by simp
  then have "(of_nat (s + (t - s)) :: rat) = of_nat t" by (simp only:)
  then have "(of_nat s + of_nat (t - s) :: rat) = of_nat t" by (simp only: of_nat_add)
  then have one: "a + a' = 1" using t0 by (simp add: a_def a'_def add_divide_distrib [symmetric])
  define lo2 :: rat where "lo2 = (1 - 1 / 2 ^ 53) * (1 - 1 / 2 ^ 53)"
  define hi2 :: rat where "hi2 = (1 + 1 / 2 ^ 53) * (1 + 1 / 2 ^ 53)"
  have l: "100 * a * lo2 \<le> fmul (fdiv (of_nat s) (of_nat t)) 100"
    "100 * a' * lo2 \<le> fmul (fdiv (of_nat (t - s)) (of_nat t)) 100"
    using percent_bounds(1) [OF assms(1,2)] by (simp_all add: a_def a'_def lo2_def mult.assoc)
  have h: "fmul (fdiv (of_nat s) (of_nat t)) 100 \<le> 100 * a * hi2"
    "fmul (fdiv (of_nat (t - s)) (of_nat t)) 100 \<le> 100 * a' * hi2"
    using percent_bounds(2) [OF assms(1,2)] by (simp_all add: a_def a'_def hi2_def mult.assoc)
  have "100 * a * lo2 + 100 * a' * lo2 = 100 * lo2 * (a + a')" by (simp add: algebra_simps)
  then have sl: "100 * a * lo2 + 100 * a' * lo2 = 100 * lo2" by (simp add: one)
  have "100 * a * hi2 + 100 * a' * hi2 = 100 * hi2 * (a + a')" by (simp add: algebra_simps)
  then have sh: "100 * a * hi2 + 100 * a' * hi2 = 100 * hi2" by (simp add: one)
  define tol :: rat where "tol = 300 / 2 ^ 53"
  define S where "S = fmul (fdiv (of_nat s) (of_nat t)) 100"
  define E where "E = fmul (fdiv (of_nat (t - s)) (of_nat t)) 100"
  have "100 - tol \<le> 100 * lo2" by (simp add: lo2_def tol_def)
  moreover have "100 * hi2 \<le> 100 + tol" by (simp add: hi2_def tol_def)
  moreover have "100 * lo2 \<le> S + E" using l sl unfolding S_def E_def by linarith
  moreover have "S + E \<le> 100 * hi2" using h sh unfolding S_def E_def by linarith
  ultimately have "\<bar>S + E - 100\<bar> \<le> tol" by linarith
  then show ?thesis by (simp only: S_def E_def tol_def)
qed

section \<open>The prober returns one sample for every outcome\<close>

lemma testSingleRequest_rejected:
  "testSingleRequest s (FetchRejected t) d e m =
     Inr \<lparr>endpoint = e, method_name = m, responseTime = fsub t s, statusCode = 0,
          contentLength = 0, timestamp = d\<rparr>"
  by (simp add: testSingleRequest_def try_block_def)

lemma testSingleRequest_body_failed:
  "testSingleRequest s (FetchResolved t1 status (BodyFailed t)) d e m =
     Inr \<lparr>endpoint = e, method_name = m, responseTime = fsub t s, statusCode = 0,
          contentLength = 0, timestamp = d\<rparr>"
  by (simp add: testSingleRequest_def try_block_def)

lemma testSingleRequest_read:
  "testSingleRequest s (FetchResolved t1 status (BodyRead content t2)) d e m =
     Inr \<lparr>endpoint = e, method_name = m, responseTime = fsub t1 s, statusCode = status,
          contentLength = length content, timestamp = d\<rparr>"
  by (simp add: testSingleRequest_def try_block_def)

lemma testSingleRequest_total:
  "\<exists>sample. testSingleRequest s outcome d e m = Inr sample
     \<and> endpoint sample = e \<and> method_name sample = m"
proof (cases outcome)
  case (FetchResolved t1 status body)
  then show ?thesis
    by (cases body) (simp_all add: testSingleRequest_read testSingleRequest_body_failed)
next
  case (FetchRejected t)
  then show ?thesis by (simp add: testSingleRequest_rejected)
qed

section \<open>The selector and the benchmark loop\<close>

lemma walk_takeWhile:
  "walk random eps =
     (let k = length (takeWhile (\<lambda>remainder. 0 < remainder) (remainders random eps))
      in if k < length eps then Some (eps ! k) else None)"
  by (induction eps arbitrary: random) (auto simp: Let_def not_le)

lemma walk_in_set: "walk random eps = Some ep \<Longrightarrow> ep \<in> set eps"
  by (induction eps arbitrary: random) (auto simp: Let_def split: if_splits)

lemma select_draw_spec: "select_draw eps random = spec_select eps random"
  by (cases eps) (auto simp: select_draw_def spec_select_def walk_takeWhile Let_def)

lemma select_draw_in_set:
  assumes "eps \<noteq> []"
  shows "\<exists>ep\<in>set eps. select_draw eps random = Some ep"
proof (cases "walk random eps")
  case None
  with assms show ?thesis by (cases eps) (auto simp: select_draw_def)
next
  case (Some ep)
  then show ?thesis using walk_in_set [OF Some] by (auto simp: select_draw_def)
qed

lemma getTestEndpoints_nonempty: "getTestEndpoints \<noteq> []"
  by (simp add: getTestEndpoints_def)

lemma selectRandomEndpoint_Some:
  "\<exists>ep\<in>set getTestEndpoints. selectRandomEndpoint u = Some ep"
  unfolding selectRandomEndpoint_def
  by (rule select_draw_in_set [OF getTestEndpoints_nonempty])

lemma spec_select_example:
  "map_option path (spec_select getTestEndpoints 50) = Some ''/api/blogs''"
  by code_simp

lemma quick_loop_progress:
  "i \<le> n \<Longrightarrow>
   \<exists>st'. quick_loop n env i st = Inr st'
     \<and> run_progress st' =
         run_progress st @ filter (\<lambda>k. k mod progressInterval n = 0) [Suc i..<Suc n]
     \<and> length (run_results st') = length (run_results st) + (n - i)"
proof (induction "n - i" arbitrary: i st)
  case 0
  then have "i = n" by simp
  then show ?case by (subst quick_loop.simps) simp
next
  case (Suc d)
  then have lt: "i < n" and d: "d = n - Suc i" and le: "Suc i \<le> n" by simp_all
  obtain ep where ep: "selectRandomEndpoint (random_draw (env i)) = Some ep"
    using selectRandomEndpoint_Some by blast
  obtain sample where sample:
    "testSingleRequest (probe_start (env i)) (probe_outcome (env i)) (probe_date (env i))
       (path ep) (method_ep ep) = Inr sample"
    using testSingleRequest_total by blast
  define st1 where "st1 =
    \<lparr>run_results = run_results st @ [sample],
     run_progress = (if (i + 1) mod progressInterval n = 0
                     then run_progress st @ [i + 1] else run_progress st)\<rparr>"
  have step: "quick_loop n env i st = quick_loop n env (Suc i) st1"
    using lt ep sample by (subst quick_loop.simps) (simp add: st1_def)
  obtain st' where st': "quick_loop n env (Suc i) st1 = Inr st'"
    "run_progress st' =
       run_progress st1 @ filter (\<lambda>k. k mod progressInterval n = 0) [Suc (Suc i)..<Suc n]"
    "length (run_results st') = length (run_results st1) + (n - Suc i)"
    using Suc.hyps(1) [OF d le, of st1] by blast
  have upt: "[Suc i..<Suc n] = Suc i # [Suc (Suc i)..<Suc n]"
    using lt by (simp add: upt_conv_Cons)
  have "run_progress st1 @ filter (\<lambda>k. k mod progressInterval n = 0) [Suc (Suc i)..<Suc n]
        = run_progress st @ filter (\<lambda>k. k mod progressInterval n = 0) [Suc i..<Suc n]"
    unfolding upt by (simp add: st1_def del: upt_Suc)
  moreover have "length (run_results st1) + (n - Suc i) = length (run_results st) + (n - i)"
    using lt by (simp add: st1_def)
  ultimately show ?case
    using st' step by simp
qed

section \<open>The recommendation ladder\<close>

lemmas msg_defs =
  msg_mean_excellent_def msg_mean_good_def msg_mean_fair_def msg_mean_needs_improvement_def
  msg_p95_consistent_def msg_p95_good_def msg_p95_high_def
  msg_success_outstanding_def msg_success_excellent_def msg_success_good_def
  msg_success_investigate_def msg_cambridge_validation_def msg_competitive_advantage_def

lemma generateRecommendations_spec:
  "responseTimes \<noteq> [] \<Longrightarrow>
   generateRecommendations responseTimes rate =
     spec_recommendations (mean_of responseTimes)
       (at_or_zero responseTimes (percentileIndex (length responseTimes) lit_0_95)) rate"
  by (simp add: generateRecommendations_def spec_recommendations_def spec_mean_message_def
        spec_p95_message_def spec_success_message_def Let_def)

lemma mean_message_in: "spec_mean_message a \<in> set mean_ladder"
  by (simp add: spec_mean_message_def mean_ladder_def)

lemma ladders_disjoint:
  "set mean_ladder \<inter> set p95_ladder = {}"
  "set mean_ladder \<inter> set success_ladder = {}"
  "set mean_ladder \<inter> set bonus_messages = {}"
  "set p95_ladder \<inter> set success_ladder = {}"
  "set p95_ladder \<inter> set bonus_messages = {}"
  "set success_ladder \<inter> set bonus_messages = {}"
  by (simp_all add: mean_ladder_def p95_ladder_def success_ladder_def bonus_messages_def msg_defs)

lemma ladder_counts:
  "length (filter (\<lambda>msg. msg \<in> set mean_ladder) (spec_recommendations a b c)) = 1"
  "length (filter (\<lambda>msg. msg \<in> set p95_ladder) (spec_recommendations a b c)) = 1"
  "length (filter (\<lambda>msg. msg \<in> set success_ladder) (spec_recommendations a b c)) = 1"
  by (simp_all add: spec_recommendations_def spec_mean_message_def
        spec_p95_message_def spec_success_message_def
        mean_ladder_def p95_ladder_def success_ladder_def msg_defs)

lemma bonus_iff:
  "filter (\<lambda>msg. msg \<in> set bonus_messages) (spec_recommendations a b c) =
     (if a < 100 \<and> lit_0_99 < c then bonus_messages else [])"
  by (simp add: spec_recommendations_def spec_mean_message_def
        spec_p95_message_def spec_success_message_def bonus_messages_def msg_defs)

lemma spec_recommendations_example:
  "spec_recommendations 45 90 1 =
   [msg_mean_excellent, msg_p95_consistent, msg_success_outstanding,
    msg_cambridge_validation, msg_competitive_advantage]"
proof -
  have "lit_0_999 \<le> 1" "lit_0_99 < 1" by code_simp+
  then show ?thesis
  by (simp add: spec_recommendations_def spec_mean_message_def
        spec_p95_message_def spec_success_message_def)
qed

lemma mean_p95_example:
  "mean_of [0, 90] = 45"
  "at_or_zero [0, 90] (percentileIndex (length [0, 90::rat]) lit_0_95) = 90"
  by code_simp+

section \<open>The report generator: structure of the result\<close>

text \<open>
  The loop over the samples keeps the keys of \<open>endpointStats\<close> distinct, adds a key for
  every endpoint it meets and counts every sample once; the statistics of a key are those
  of the samples with that endpoint, in their order of arrival. \<open>generateReport\<close>
  returns a report exactly when there is a successful sample, the loop does not throw and
  the successful samples are no more than the arguments one call may take; with more of
  them it throws the \<open>RangeError\<close>.
\<close>

lemma map_of_update_entries:
  "map_of (map (\<lambda>(k, s). if k = e then (k, f s) else (k, s)) xs) k' =
     (if k' = e then map_option f (map_of xs k') else map_of xs k')"
  by (induction xs) auto

lemma fst_update_entries:
  "map fst (map (\<lambda>(k, s). if k = e then (k, f s) else (k, s)) xs) = map fst xs"
  by (induction xs) auto

lemma fst_comp_update_entries:
  "map (fst \<circ> (\<lambda>(k, s). if k = e then (k, f s) else (k, s))) xs = map fst xs"
  by (induction xs) auto

lemma requests_update_entries:
  "distinct (map fst xs) \<Longrightarrow> map_of xs e = Some st \<Longrightarrow>
   sum_list (map (\<lambda>(k, s). st_requests s)
     (map (\<lambda>(k, s). if k = e then (k, record_sample r s) else (k, s)) xs)) =
   Suc (sum_list (map (\<lambda>(k, s). st_requests s) xs))"
proof (induction xs)
  case Nil
  then show ?case by simp
next
  case (Cons x xs)
  obtain k s where x: "x = (k, s)" by (cases x)
  show ?case
  proof (cases "k = e")
    case True
    with Cons.prems x have "e \<notin> fst ` set xs" by auto
    then have "map (\<lambda>(k, s). if k = e then (k, record_sample r s) else (k, s)) xs = xs"
      by (induction xs) auto
    with True x show ?thesis by (simp add: record_sample_def)
  next
    case False
    with Cons x show ?thesis by simp
  qed
qed

lemma add_sample_Inr:
  assumes "add_sample acc r = Inr acc'"
  shows "map_of acc' k =
           (if k = endpoint r
            then Some (record_sample r
                   (case map_of acc k of None \<Rightarrow> fresh_stats | Some st \<Rightarrow> st))
            else map_of acc k)"
    and "set (map fst acc') = insert (endpoint r) (set (map fst acc))"
    and "distinct (map fst acc) \<Longrightarrow> distinct (map fst acc')"
    and "distinct (map fst acc) \<Longrightarrow>
         sum_list (map (\<lambda>(k, s). st_requests s) acc') =
         Suc (sum_list (map (\<lambda>(k, s). st_requests s) acc))"
proof -
  show "map_of acc' k =
           (if k = endpoint r
            then Some (record_sample r
                   (case map_of acc k of None \<Rightarrow> fresh_stats | Some st \<Rightarrow> st))
            else map_of acc k)"
    using assms
    by (auto simp: add_sample_def map_of_update_entries map_add_def
        split: option.splits if_splits)
  show "set (map fst acc') = insert (endpoint r) (set (map fst acc))"
    using assms
    by (auto simp: add_sample_def fst_update_entries map_of_eq_None_iff
        simp del: set_map split: option.splits if_splits dest: map_of_SomeD)
       (force dest: map_of_SomeD)+
  show "distinct (map fst acc')" if "distinct (map fst acc)"
    using assms that
    by (auto simp: add_sample_def fst_comp_update_entries map_of_eq_None_iff
        split: option.splits if_splits)
  show "sum_list (map (\<lambda>(k, s). st_requests s) acc') =
         Suc (sum_list (map (\<lambda>(k, s). st_requests s) acc))" if "distinct (map fst acc)"
  proof (cases "map_of acc (endpoint r)")
    case None
    with assms show ?thesis
      by (auto simp: add_sample_def record_sample_def fresh_stats_def split: if_splits)
  next
    case (Some st)
    with assms have "acc' =
      map (\<lambda>(k, s). if k = endpoint r then (k, record_sample r s) else (k, s)) acc"
      by (simp add: add_sample_def)
    then show ?thesis
      using requests_update_entries [OF that Some, of r] by (simp only:)
  qed
qed

lemma add_sample_Inl_iff:
  "(\<exists>e. add_sample acc r = Inl e) \<longleftrightarrow>
     map_of acc (endpoint r) = None \<and> endpoint r \<in> set object_prototype_keys"
  by (auto simp: add_sample_def split: option.splits)

lemma foldl_record_sample:
  "foldl (\<lambda>st r. record_sample r st) st g =
     \<lparr>st_requests = st_requests st + length g,
      st_responseTimes = st_responseTimes st @ map responseTime g,
      st_successCount = st_successCount st + length (filter is_success g)\<rparr>"
  by (induction g arbitrary: st) (auto simp: record_sample_def)

lemma collect_stats_Inr:
  assumes "collect_stats acc rs = Inr stats" and "distinct (map fst acc)"
  shows "distinct (map fst stats)"
    and "set (map fst stats) = set (map fst acc) \<union> endpoint ` set rs"
    and "map_of stats k =
           (if k \<in> set (map fst acc) \<union> endpoint ` set rs
            then Some (foldl (\<lambda>st r. record_sample r st)
                   (case map_of acc k of None \<Rightarrow> fresh_stats | Some st \<Rightarrow> st)
                   (filter (\<lambda>r. endpoint r = k) rs))
            else None)"
    and "sum_list (map (\<lambda>(k, s). st_requests s) stats) =
         sum_list (map (\<lambda>(k, s). st_requests s) acc) + length rs"
  using assms
proof (induction rs arbitrary: acc)
  case Nil
  {
    case 1 then show ?case by simp
  next
    case 2 then show ?case by simp
  next
    case 3 then show ?case
      by (auto simp: map_of_eq_None_iff split: option.splits dest: map_of_SomeD)
  next
    case 4 then show ?case by simp
  }
next
  case (Cons r rs)
  {
    case 1
    then obtain acc1 where a: "add_sample acc r = Inr acc1"
      and c: "collect_stats acc1 rs = Inr stats"
      by (auto split: sum.splits)
    have d: "distinct (map fst acc1)" using add_sample_Inr(3) [OF a] 1 by simp
    show ?case using Cons.IH(1) [OF c d] .
  next
    case 2
    then obtain acc1 where a: "add_sample acc r = Inr acc1"
      and c: "collect_stats acc1 rs = Inr stats"
      by (auto split: sum.splits)
    have d: "distinct (map fst acc1)" using add_sample_Inr(3) [OF a] 2 by simp
    show ?case using Cons.IH(2) [OF c d] add_sample_Inr(2) [OF a] by auto
  next
    case 3
    then obtain acc1 where a: "add_sample acc r = Inr acc1"
      and c: "collect_stats acc1 rs = Inr stats"
      by (auto split: sum.splits)
    have d: "distinct (map fst acc1)" using add_sample_Inr(3) [OF a] 3 by simp
    have k1: "set (map fst acc1) = insert (endpoint r) (set (map fst acc))"
      by (rule add_sample_Inr(2) [OF a])
    show ?case
      unfolding Cons.IH(3) [OF c d] k1 add_sample_Inr(1) [OF a, of k]
      by (auto simp: map_of_eq_None_iff split: option.splits)
  next
    case 4
    then obtain acc1 where a: "add_sample acc r = Inr acc1"
      and c: "collect_stats acc1 rs = Inr stats"
      by (auto split: sum.splits)
    have d: "distinct (map fst acc1)" using add_sample_Inr(3) [OF a] 4 by simp
    show ?case using Cons.IH(4) [OF c d] add_sample_Inr(4) [OF a] 4 by simp
  }
qed

lemma collect_stats_total:
  "\<forall>r\<in>set rs. endpoint r \<notin> set object_prototype_keys \<Longrightarrow>
   \<exists>stats. collect_stats acc rs = Inr stats"
proof (induction rs arbitrary: acc)
  case Nil
  then show ?case by simp
next
  case (Cons r rs)
  then have "\<exists>acc1. add_sample acc r = Inr acc1"
    by (simp add: add_sample_def split: option.splits)
  then obtain acc1 where "add_sample acc r = Inr acc1" ..
  with Cons show ?case by simp
qed

lemma collect_stats_Inl:
  "collect_stats acc rs = Inl e \<Longrightarrow>
   e = TypeError ''Cannot read properties of undefined (reading 'push')''
   \<and> (\<exists>r\<in>set rs. endpoint r \<in> set object_prototype_keys)"
proof (induction rs arbitrary: acc)
  case Nil
  then show ?case by simp
next
  case (Cons r rs)
  show ?case
  proof (cases "add_sample acc r")
    case (Inl e')
    with Cons.prems have "e' = e" by simp
    with Inl show ?thesis
      by (auto simp: add_sample_def split: option.splits if_splits)
  next
    case (Inr acc1)
    with Cons.prems have "collect_stats acc1 rs = Inl e" by simp
    from Cons.IH [OF this] show ?thesis by auto
  qed
qed

lemma generateReport_Inr:
  assumes "generateReport argLimit results = Inr r"
  shows "results \<noteq> []"
    and "successful_times results \<noteq> []"
    and "summary r =
          \<lparr>totalRequests = length results,
           averageResponseTime = mean_of (successful_times results),
           p50ResponseTime = at_or_zero (successful_times results)
             (percentileIndex (length (successful_times results)) lit_0_5),
           p95ResponseTime = at_or_zero (successful_times results)
             (percentileIndex (length (successful_times results)) lit_0_95),
           p99ResponseTime = at_or_zero (successful_times results)
             (percentileIndex (length (successful_times results)) lit_0_99),
           minResponseTime = Min (set (successful_times results)),
           maxResponseTime = Max (set (successful_times results)),
           successRate =
             fmul (fdiv (of_nat (length (filter is_success results)))
                        (of_nat (length results))) 100,
           errorRate =
             fmul (fdiv (of_nat (length results - length (filter is_success results)))
                        (of_nat (length results))) 100\<rparr>"
    and "\<exists>stats. collect_stats [] results = Inr stats
           \<and> endpointBreakdown r = map (\<lambda>(k, st). (k, breakdown_entry st)) stats"
    and "timeSeriesData r = results"
    and "recommendations r =
           generateRecommendations (successful_times results)
             (fdiv (of_nat (length (filter is_success results))) (of_nat (length results)))"
    and "length (filter is_success results) \<le> argLimit"
proof -
  from assms have ne: "results \<noteq> []"
    by (auto simp: generateReport_def)
  from assms obtain t ts where ts: "successful_times results = t # ts"
    by (cases "successful_times results")
       (auto simp: generateReport_def successful_times_def Let_def split: if_splits)
  from assms ne ts obtain stats where st: "collect_stats [] results = Inr stats"
    by (cases "collect_stats [] results")
       (auto simp: generateReport_def successful_times_def Let_def)
  from assms ne ts st have lim: "\<not> argLimit < Suc (length ts)"
    by (auto simp: generateReport_def successful_times_def Let_def split: if_splits)
  have mm: "fold min ts t = Min (set (t # ts))" "fold max ts t = Max (set (t # ts))"
    by (simp_all only: Min.set_eq_fold Max.set_eq_fold)
  have r: "r = \<lparr>summary =
          \<lparr>totalRequests = length results,
           averageResponseTime = mean_of (t # ts),
           p50ResponseTime = at_or_zero (t # ts) (percentileIndex (length (t # ts)) lit_0_5),
           p95ResponseTime = at_or_zero (t # ts) (percentileIndex (length (t # ts)) lit_0_95),
           p99ResponseTime = at_or_zero (t # ts) (percentileIndex (length (t # ts)) lit_0_99),
           minResponseTime = fold min ts t,
           maxResponseTime = fold max ts t,
           successRate =
             fmul (fdiv (of_nat (length (filter is_success results)))
                        (of_nat (length results))) 100,
           errorRate =
             fmul (fdiv (of_nat (length results - length (filter is_success results)))
                        (of_nat (length results))) 100\<rparr>,
         endpointBreakdown = map (\<lambda>(k, st). (k, breakdown_entry st)) stats,
         timeSeriesData = results,
         recommendations = generateRecommendations (t # ts)
             (fdiv (of_nat (length (filter is_success results))) (of_nat (length results)))\<rparr>"
    using assms ne ts st lim
    by (simp add: generateReport_def successful_times_def Let_def)
  show "results \<noteq> []" by (rule ne)
  show "successful_times results \<noteq> []" by (simp add: ts)
  show "summary r = \<lparr>totalRequests = length results,
           averageResponseTime = mean_of (successful_times results),
           p50ResponseTime = at_or_zero (successful_times results)
             (percentileIndex (length (successful_times results)) lit_0_5),
           p95ResponseTime = at_or_zero (successful_times results)
             (percentileIndex (length (successful_times results)) lit_0_95),
           p99ResponseTime = at_or_zero (successful_times results)
             (percentileIndex (length (successful_times results)) lit_0_99),
           minResponseTime = Min (set (successful_times results)),
           maxResponseTime = Max (set (successful_times results)),
           successRate =
             fmul (fdiv (of_nat (length (filter is_success results)))
                        (of_nat (length results))) 100,
           errorRate =
             fmul (fdiv (of_nat (length results - length (filter is_success results)))
                        (of_nat (length results))) 100\<rparr>"
    unfolding ts mm [symmetric] by (simp add: r)
  show "\<exists>stats. collect_stats [] results = Inr stats
           \<and> endpointBreakdown r = map (\<lambda>(k, st). (k, breakdown_entry st)) stats"
    using st by (simp add: r)
  show "timeSeriesData r = results" by (simp add: r)
  show "recommendations r =
           generateRecommendations (successful_times results)
             (fdiv (of_nat (length (filter is_success results))) (of_nat (length results)))"
    by (simp add: r ts)
  have "length (successful_times results) = length (filter is_success results)"
    by (simp add: successful_times_def)
  then show "length (filter is_success results) \<le> argLimit"
    using lim by (simp add: ts)
qed

lemma generateReport_returns:
  assumes "results \<noteq> []" and "filter is_success results \<noteq> []"
    and "\<forall>r\<in>set results. endpoint r \<notin> set object_prototype_keys"
    and "length (filter is_success results) \<le> argLimit"
  shows "\<exists>r. generateReport argLimit results = Inr r"
proof -
  obtain stats where "collect_stats [] results = Inr stats"
    using collect_stats_total [OF assms(3)] by blast
  moreover obtain t ts where ts: "sort (map responseTime (filter is_success results)) = t # ts"
    using assms(2) by (cases "sort (map responseTime (filter is_success results))")
      (auto dest: arg_cong [where f = length])
  moreover have "\<not> argLimit < Suc (length ts)"
    using assms(4) arg_cong [OF ts, of length] by simp
  ultimately show ?thesis
    using assms(1) by (simp add: generateReport_def Let_def)
qed

lemma generateReport_range_error:
  assumes "\<forall>r\<in>set results. endpoint r \<notin> set object_prototype_keys"
    and "argLimit < length (filter is_success results)"
  shows "generateReport argLimit results
           = Inl (RangeError ''Maximum call stack size exceeded'')"
proof -
  have ne: "results \<noteq> []" using assms(2) by auto
  obtain stats where "collect_stats [] results = Inr stats"
    using collect_stats_total [OF assms(1)] by blast
  moreover obtain t ts where ts: "sort (map responseTime (filter is_success results)) = t # ts"
    using assms(2) by (cases "sort (map responseTime (filter is_success results))")
      (auto dest: arg_cong [where f = length])
  moreover have "argLimit < Suc (length ts)"
    using assms(2) arg_cong [OF ts, of length] by simp
  ultimately show ?thesis
    using ne by (simp add: generateReport_def Let_def)
qed

lemma generateReport_empty_iff:
  "generateReport argLimit results = Inl (Error ''No test results available'') \<longleftrightarrow> results = []"
proof
  assume a: "generateReport argLimit results = Inl (Error ''No test results available'')"
  show "results = []"
  proof (rule ccontr)
    assume ne: "results \<noteq> []"
    show False
    proof (cases "sort (map responseTime (filter is_success results))")
      case Nil
      with a ne show False by (simp add: generateReport_def Let_def)
    next
      case (Cons t ts)
      with a ne show False
        by (cases "collect_stats [] results")
           (auto simp: generateReport_def Let_def split: if_splits dest: collect_stats_Inl)
    qed
  qed
next
  assume "results = []"
  then show "generateReport argLimit results = Inl (Error ''No test results available'')"
    by (simp add: generateReport_def)
qed

lemma generateReport_no_success_iff:
  "generateReport argLimit results = Inl (Error ''No successful requests for analysis'')
   \<longleftrightarrow> results \<noteq> [] \<and> filter is_success results = []"
proof
  assume a: "generateReport argLimit results = Inl (Error ''No successful requests for analysis'')"
  then have ne: "results \<noteq> []" by (auto simp: generateReport_def)
  show "results \<noteq> [] \<and> filter is_success results = []"
  proof (cases "sort (map responseTime (filter is_success results))")
    case Nil
    then have "length (sort (map responseTime (filter is_success results))) = 0" by simp
    then show ?thesis using ne by simp
  next
    case (Cons t ts)
    with a ne show ?thesis
      by (cases "collect_stats [] results")
         (auto simp: generateReport_def Let_def split: if_splits dest: collect_stats_Inl)
  qed
next
  assume "results \<noteq> [] \<and> filter is_success results = []"
  then show "generateReport argLimit results = Inl (Error ''No successful requests for analysis'')"
    by (simp add: generateReport_def)
qed

lemma at_or_zero_nth: "i < length xs \<Longrightarrow> at_or_zero xs i = xs ! i"
  by (simp add: at_or_zero_def)

lemma percentile_nth:
  assumes "xs \<noteq> []"
  shows "at_or_zero xs (percentileIndex (length xs) lit_0_5)
           = xs ! percentileIndex (length xs) lit_0_5"
    and "at_or_zero xs (percentileIndex (length xs) lit_0_95)
           = xs ! percentileIndex (length xs) lit_0_95"
    and "at_or_zero xs (percentileIndex (length xs) lit_0_99)
           = xs ! percentileIndex (length xs) lit_0_99"
  using assms by (simp_all add: at_or_zero_nth percentileIndex_in_bounds)

lemma breakdown_entry_group:
  assumes "g \<noteq> []"
  shows "breakdown_entry (foldl (\<lambda>st r. record_sample r st) fresh_stats g)
           = spec_group_breakdown g"
proof -
  have "sort (map responseTime g) \<noteq> []"
    using assms by (auto dest: arg_cong [where f = length])
  from percentile_nth(2) [OF this] show ?thesis
    by (simp add: breakdown_entry_def spec_group_breakdown_def foldl_record_sample
        fresh_stats_def mean_of_def Let_def)
qed

lemma requests_breakdown_entry: "requests (breakdown_entry st) = st_requests st"
  by (simp add: breakdown_entry_def Let_def)

lemma generateReport_breakdown:
  assumes "generateReport argLimit results = Inr r"
  shows "distinct (map fst (endpointBreakdown r))"
    and "set (map fst (endpointBreakdown r)) = endpoint ` set results"
    and "map_of (endpointBreakdown r) e =
           (if e \<in> endpoint ` set results
            then Some (spec_group_breakdown (group_of e results)) else None)"
    and "sum_list (map (\<lambda>(e, b). requests b) (endpointBreakdown r)) = length results"
proof -
  obtain stats where st: "collect_stats [] results = Inr stats"
    and bd: "endpointBreakdown r = map (\<lambda>(k, st). (k, breakdown_entry st)) stats"
    using generateReport_Inr(4) [OF assms] by blast
  have d: "distinct (map fst ([] :: (string \<times> EndpointStats) list))" by simp
  have keys: "map fst (endpointBreakdown r) = map fst stats"
    by (simp add: bd case_prod_unfold comp_def)
  show "distinct (map fst (endpointBreakdown r))"
    using collect_stats_Inr(1) [OF st d] by (simp only: keys)
  show "set (map fst (endpointBreakdown r)) = endpoint ` set results"
    using collect_stats_Inr(2) [OF st d] by (simp only: keys) simp
  show "map_of (endpointBreakdown r) e =
           (if e \<in> endpoint ` set results
            then Some (spec_group_breakdown (group_of e results)) else None)"
  proof (cases "e \<in> endpoint ` set results")
    case True
    then have ne: "group_of e results \<noteq> []"
      by (auto simp: group_of_def filter_empty_conv)
    have "map_of stats e =
            Some (foldl (\<lambda>st r. record_sample r st) fresh_stats (group_of e results))"
      using collect_stats_Inr(3) [OF st d, of e] True by (simp add: group_of_def)
    then show ?thesis
      using True by (simp add: bd map_of_map breakdown_entry_group [OF ne])
  next
    case False
    then have "map_of stats e = None"
      using collect_stats_Inr(3) [OF st d, of e] by simp
    then show ?thesis using False by (simp add: bd map_of_map)
  qed
  have "sum_list (map (\<lambda>(e, b). requests b) (endpointBreakdown r))
          = sum_list (map (\<lambda>(k, s). st_requests s) stats)"
    by (simp add: bd comp_def case_prod_unfold requests_breakdown_entry)
  then show "sum_list (map (\<lambda>(e, b). requests b) (endpointBreakdown r)) = length results"
    using collect_stats_Inr(4) [OF st d] by simp
qed

section \<open>Paths, successful times and the concrete inputs\<close>

lemma path_not_prototype_key: "is_path e \<Longrightarrow> e \<notin> set object_prototype_keys"
  by (cases e) (auto simp: is_path_def object_prototype_keys_def)

lemma catalog_paths: "\<forall>ep\<in>set getTestEndpoints. is_path (path ep)"
  by (simp add: getTestEndpoints_def is_path_def)

lemma quick_loop_paths:
  "i \<le> n \<Longrightarrow> quick_loop n env i st = Inr st' \<Longrightarrow>
   \<forall>s\<in>set (run_results st). is_path (endpoint s) \<Longrightarrow>
   \<forall>s\<in>set (run_results st'). is_path (endpoint s)"
proof (induction "n - i" arbitrary: i st)
  case 0
  then have "i = n" by simp
  with "0.prems"(2) have "st' = st" by (subst (asm) quick_loop.simps) simp
  with "0.prems"(3) show ?case by simp
next
  case (Suc d)
  then have lt: "i < n" and d: "d = n - Suc i" and le: "Suc i \<le> n" by simp_all
  obtain ep where ep: "selectRandomEndpoint (random_draw (env i)) = Some ep"
    and epc: "ep \<in> set getTestEndpoints"
    using selectRandomEndpoint_Some by blast
  obtain sample where sample:
    "testSingleRequest (probe_start (env i)) (probe_outcome (env i)) (probe_date (env i))
       (path ep) (method_ep ep) = Inr sample" and se: "endpoint sample = path ep"
    using testSingleRequest_total by blast
  define st1 where "st1 =
    \<lparr>run_results = run_results st @ [sample],
     run_progress = (if (i + 1) mod progressInterval n = 0
                     then run_progress st @ [i + 1] else run_progress st)\<rparr>"
  have step: "quick_loop n env i st = quick_loop n env (Suc i) st1"
    using lt ep sample by (subst quick_loop.simps) (simp add: st1_def)
  have "is_path (endpoint sample)" using catalog_paths epc se by simp
  then have p1: "\<forall>s\<in>set (run_results st1). is_path (endpoint s)"
    using Suc.prems(3) by (simp add: st1_def)
  have "quick_loop n env (Suc i) st1 = Inr st'" using Suc.prems(2) step by simp
  from Suc.hyps(1) [OF d le this p1] show ?case .
qed

lemma quick_loop_healthy:
  "i \<le> n \<Longrightarrow> quick_loop n healthy_env i st = Inr st' \<Longrightarrow>
   \<forall>s\<in>set (run_results st). is_success s \<Longrightarrow>
   \<forall>s\<in>set (run_results st'). is_success s"
proof (induction "n - i" arbitrary: i st)
  case 0
  then have "i = n" by simp
  with "0.prems"(2) have "st' = st" by (subst (asm) quick_loop.simps) simp
  with "0.prems"(3) show ?case by simp
next
  case (Suc d)
  then have lt: "i < n" and d: "d = n - Suc i" and le: "Suc i \<le> n" by simp_all
  obtain ep where ep: "selectRandomEndpoint (random_draw (healthy_env i)) = Some ep"
    using selectRandomEndpoint_Some by blast
  define sample where "sample =
    \<lparr>endpoint = path ep, method_name = method_ep ep, responseTime = fsub 5 0,
     statusCode = 200, contentLength = length [111, 107 :: nat], timestamp = 0\<rparr>"
  have sample:
    "testSingleRequest (probe_start (healthy_env i)) (probe_outcome (healthy_env i))
       (probe_date (healthy_env i)) (path ep) (method_ep ep) = Inr sample"
    by (simp add: healthy_env_def testSingleRequest_read sample_def)
  define st1 where "st1 =
    \<lparr>run_results = run_results st @ [sample],
     run_progress = (if (i + 1) mod progressInterval n = 0
                     then run_progress st @ [i + 1] else run_progress st)\<rparr>"
  have step: "quick_loop n healthy_env i st = quick_loop n healthy_env (Suc i) st1"
    using lt ep sample by (subst quick_loop.simps) (simp add: st1_def)
  have "is_success sample" by (simp add: sample_def is_success_def)
  then have p1: "\<forall>s\<in>set (run_results st1). is_success s"
    using Suc.prems(3) by (simp add: st1_def)
  have "quick_loop n healthy_env (Suc i) st1 = Inr st'" using Suc.prems(2) step by simp
  from Suc.hyps(1) [OF d le this p1] show ?case .
qed

lemma runQuickBenchmark_outcomes:
  "runQuickBenchmark argLimit n env = Inl (Error ''No test results available'')
   \<or> runQuickBenchmark argLimit n env = Inl (Error ''No successful requests for analysis'')
   \<or> runQuickBenchmark argLimit n env = Inl (RangeError ''Maximum call stack size exceeded'')
   \<or> (\<exists>out. runQuickBenchmark argLimit n env = Inr out)"
proof -
  obtain st where st: "quick_loop n env 0 initial_state = Inr st"
    using quick_loop_progress [of 0 n env initial_state] by auto
  have "\<forall>s\<in>set (run_results st). is_path (endpoint s)"
    using quick_loop_paths [OF _ st] by (simp add: initial_state_def)
  then have np: "\<forall>s\<in>set (run_results st). endpoint s \<notin> set object_prototype_keys"
    by (auto dest: path_not_prototype_key)
  have rq: "runQuickBenchmark argLimit n env =
      (case generateReport argLimit (run_results st) of
         Inl e \<Rightarrow> Inl e | Inr report \<Rightarrow> Inr (run_progress st, report))"
    using st by (simp add: runQuickBenchmark_def initial_state_def)
  show ?thesis
  proof (cases "run_results st = []")
    case True
    then show ?thesis by (simp add: rq generateReport_def)
  next
    case ne: False
    show ?thesis
    proof (cases "filter is_success (run_results st) = []")
      case True
      with ne have "generateReport argLimit (run_results st)
          = Inl (Error ''No successful requests for analysis'')"
        by (simp add: generateReport_no_success_iff)
      then show ?thesis by (simp add: rq)
    next
      case ok: False
      show ?thesis
      proof (cases "argLimit < length (filter is_success (run_results st))")
        case True
        from generateReport_range_error [OF np this] show ?thesis by (simp add: rq)
      next
        case False
        then have "length (filter is_success (run_results st)) \<le> argLimit" by simp
        from generateReport_returns [OF ne ok np this] obtain r
          where "generateReport argLimit (run_results st) = Inr r" by blast
        then show ?thesis by (simp add: rq)
      qed
    qed
  qed
qed

lemma generateReport_outcomes:
  "(generateReport argLimit results = Inl (Error ''No test results available'')
      \<longleftrightarrow> results = [])
   \<and> (generateReport argLimit results = Inl (Error ''No successful requests for analysis'')
        \<longleftrightarrow> results \<noteq> [] \<and> filter is_success results = [])
   \<and> (results \<noteq> [] \<and> filter is_success results \<noteq> []
        \<and> (\<forall>s\<in>set results. is_path (endpoint s))
       \<longrightarrow> (if argLimit < length (filter is_success results)
            then generateReport argLimit results
                   = Inl (RangeError ''Maximum call stack size exceeded'')
            else \<exists>r. generateReport argLimit results = Inr r))"
proof -
  have "if argLimit < length (filter is_success results)
        then generateReport argLimit results
               = Inl (RangeError ''Maximum call stack size exceeded'')
        else \<exists>r. generateReport argLimit results = Inr r"
    if a: "results \<noteq> []" "filter is_success results \<noteq> []"
      "\<forall>s\<in>set results. is_path (endpoint s)"
  proof -
    have np: "\<forall>r\<in>set results. endpoint r \<notin> set object_prototype_keys"
      using a(3) by (auto dest: path_not_prototype_key)
    show ?thesis
    proof (cases "argLimit < length (filter is_success results)")
      case True
      from generateReport_range_error [OF np this] True show ?thesis by simp
    next
      case False
      then have "length (filter is_success results) \<le> argLimit" by simp
      from generateReport_returns [OF a(1,2) np this] False show ?thesis by simp
    qed
  qed
  then show ?thesis
    by (simp add: generateReport_empty_iff generateReport_no_success_iff)
qed

lemma successful_times_nonempty:
  "successful_times results \<noteq> [] \<longleftrightarrow> filter is_success results \<noteq> []"
  by (auto simp: successful_times_def dest: arg_cong [where f = length])

lemma set_successful_times:
  "set (successful_times results) = responseTime ` set (filter is_success results)"
  by (simp add: successful_times_def)

lemma five_samples_times: "successful_times five_samples = [10, 20, 30, 40, 50]"
  by (simp add: successful_times_def five_samples_def sample_of_def is_success_def)

lemma five_samples_report: "\<exists>r. generateReport 125000 five_samples = Inr r"
  by (rule generateReport_returns)
     (simp_all add: five_samples_def sample_of_def is_success_def object_prototype_keys_def)

lemma ten_samples_report: "\<exists>r. generateReport 125000 ten_samples = Inr r"
  by (rule generateReport_returns)
     (simp_all add: ten_samples_def sample_of_def is_success_def object_prototype_keys_def)

lemma ten_samples_facts:
  "length ten_samples = 10"
  "length (filter is_success ten_samples) = 8"
  "successful_times ten_samples = replicate 8 10"
  by (simp_all add: ten_samples_def sample_of_def is_success_def successful_times_def
      sort_key_id_if_sorted)

lemma ten_samples_numbers:
  "fmul (fdiv 8 10) 100 = 80"
  "fmul (fdiv 2 10) 100 = 20"
  "mean_of (replicate 8 10) = 10"
  by code_simp+

lemma mixed_samples_report: "\<exists>r. generateReport 125000 mixed_samples = Inr r"
  by (rule generateReport_returns)
     (simp_all add: mixed_samples_def sample_of_def is_success_def object_prototype_keys_def)

lemma mixed_samples_group:
  "group_of ''/a'' mixed_samples =
     [sample_of ''/a'' ''GET'' 200 10, sample_of ''/a'' ''POST'' 500 30]"
  "''/a'' \<in> endpoint ` set mixed_samples"
  by (simp_all add: group_of_def mixed_samples_def sample_of_def)

lemma percentileIndex_two:
  "percentileIndex (Suc (Suc 0)) lit_0_5 = Suc 0"
  "percentileIndex (Suc (Suc 0)) lit_0_95 = Suc 0"
  "percentileIndex (Suc (Suc 0)) lit_0_99 = Suc 0"
proof -
  have e: "Suc (Suc 0) = 2" by simp
  show "percentileIndex (Suc (Suc 0)) lit_0_5 = Suc 0"
    "percentileIndex (Suc (Suc 0)) lit_0_95 = Suc 0"
    "percentileIndex (Suc (Suc 0)) lit_0_99 = Suc 0"
    unfolding e using percentileIndex_exact_literals [of 2] by simp_all
qed

lemma mixed_samples_numbers:
  "mean_of [10, 30] = 20"
  "fmul (fdiv 1 2) 100 = 50"
  by code_simp+

lemma group_p95_observed:
  assumes "g \<noteq> []"
  shows "p95ResponseTime_ep (spec_group_breakdown g) \<in> responseTime ` set g"
proof -
  have "percentileIndex (length g) lit_0_95 < length (sort (map responseTime g))"
    using assms percentileIndex_in_bounds(2) [of "length g"] by simp
  then have "sort (map responseTime g) ! percentileIndex (length g) lit_0_95
      \<in> set (sort (map responseTime g))" by (rule nth_mem)
  then show ?thesis by (simp add: spec_group_breakdown_def Let_def)
qed

lemma spec_progress_15: "spec_progress_iterations 15 = [2, 4, 6, 8, 10, 12, 14]"
  by code_simp

lemma upt_1_26_multiples: "filter (\<lambda>k. k mod 2 = 0) [1..<Suc 25] = [2, 4, 6, 8, 10, 12, 14, 16, 18, 20, 22, 24]"
  by code_simp

section \<open>The claims\<close>

text \<open>
  C1. Whenever report generation returns a report, the successful response times are
  not empty and each summary percentile \<open>p\<close> of 0.5, 0.95 and 0.99 is the element at
  index \<open>floor (n * p)\<close> of the ascending-sorted successful response times, \<open>n\<close> being
  their number, with no interpolation. The index is the one the code computes in double
  arithmetic; for every array length below \<open>2 ^ 32\<close> (the bound of a JavaScript array)
  it is the exact floor of \<open>n / 2\<close>, \<open>95 n / 100\<close> and \<open>99 n / 100\<close>. The witness is
  the example of the claim: sorted times 10, 20, 30, 40, 50 give p50 = 30 at index 2 and
  p95 = 50 at index 4.
\<close>

theorem summary_percentiles_nearest_rank:
  assumes "generateReport argLimit results = Inr r"
  shows "successful_times results \<noteq> []
    \<and> p50ResponseTime (summary r) =
        successful_times results ! percentileIndex (length (successful_times results)) lit_0_5
    \<and> p95ResponseTime (summary r) =
        successful_times results ! percentileIndex (length (successful_times results)) lit_0_95
    \<and> p99ResponseTime (summary r) =
        successful_times results ! percentileIndex (length (successful_times results)) lit_0_99
    \<and> (length (successful_times results) < 2 ^ 32 \<longrightarrow>
         percentileIndex (length (successful_times results)) lit_0_5
           = length (successful_times results) div 2
       \<and> percentileIndex (length (successful_times results)) lit_0_95
           = (length (successful_times results) * 95) div 100
       \<and> percentileIndex (length (successful_times results)) lit_0_99
           = (length (successful_times results) * 99) div 100)"
proof -
  have ne: "successful_times results \<noteq> []" by (rule generateReport_Inr(2) [OF assms])
  have s: "summary r = \<lparr>totalRequests = length results,
           averageResponseTime = mean_of (successful_times results),
           p50ResponseTime = at_or_zero (successful_times results)
             (percentileIndex (length (successful_times results)) lit_0_5),
           p95ResponseTime = at_or_zero (successful_times results)
             (percentileIndex (length (successful_times results)) lit_0_95),
           p99ResponseTime = at_or_zero (successful_times results)
             (percentileIndex (length (successful_times results)) lit_0_99),
           minResponseTime = Min (set (successful_times results)),
           maxResponseTime = Max (set (successful_times results)),
           successRate =
             fmul (fdiv (of_nat (length (filter is_success results)))
                        (of_nat (length results))) 100,
           errorRate =
             fmul (fdiv (of_nat (length results - length (filter is_success results)))
                        (of_nat (length results))) 100\<rparr>"
    by (rule generateReport_Inr(3) [OF assms])
  show ?thesis
    using ne percentileIndex_exact_literals [of "length (successful_times results)"]
    by (simp add: s percentile_nth [OF ne])
qed

theorem summary_percentiles_nearest_rank_witness:
  "\<exists>r. generateReport 125000 five_samples = Inr r
     \<and> successful_times five_samples = [10, 20, 30, 40, 50]
     \<and> percentileIndex 5 lit_0_5 = 2 \<and> percentileIndex 5 lit_0_95 = 4
     \<and> p50ResponseTime (summary r) = 30 \<and> p95ResponseTime (summary r) = 50"
proof -
  obtain r where r: "generateReport 125000 five_samples = Inr r"
    using five_samples_report by blast
  have i: "percentileIndex 5 lit_0_5 = 2" "percentileIndex 5 lit_0_95 = 4"
    using percentileIndex_exact_literals [of 5] by simp_all
  show ?thesis
    using summary_percentiles_nearest_rank [OF r] r i
    by (simp add: five_samples_times)
qed

text \<open>
  C2. In a returned report the mean, the three percentiles, the minimum and the maximum
  are computed from the response times of the successful samples only, while
  \<open>totalRequests\<close> is the number of all samples, \<open>successRate\<close> is
  successful / total * 100 and \<open>errorRate\<close> is (total - successful) / total * 100, its
  complement: the two rates add up to 100 within three units of rounding. The witness is
  the example of the claim: eight samples with status 200 and two with status 500, all of
  10 ms, give 10 requests, success rate 80, error rate 20 and a mean of exactly 10 ms.
\<close>

theorem summary_over_successful_subset:
  assumes "generateReport argLimit results = Inr r"
  shows "averageResponseTime (summary r) = mean_of (successful_times results)
    \<and> p50ResponseTime (summary r) =
        successful_times results ! percentileIndex (length (successful_times results)) lit_0_5
    \<and> p95ResponseTime (summary r) =
        successful_times results ! percentileIndex (length (successful_times results)) lit_0_95
    \<and> p99ResponseTime (summary r) =
        successful_times results ! percentileIndex (length (successful_times results)) lit_0_99
    \<and> minResponseTime (summary r) = Min (responseTime ` set (filter is_success results))
    \<and> maxResponseTime (summary r) = Max (responseTime ` set (filter is_success results))
    \<and> totalRequests (summary r) = length results
    \<and> successRate (summary r) =
        fmul (fdiv (of_nat (length (filter is_success results))) (of_nat (length results))) 100
    \<and> errorRate (summary r) =
        fmul (fdiv (of_nat (length results - length (filter is_success results)))
                   (of_nat (length results))) 100
    \<and> (length results < 2 ^ 32 \<longrightarrow>
         \<bar>successRate (summary r) + errorRate (summary r) - 100\<bar> \<le> 300 / 2 ^ 53)"
proof -
  have ne: "successful_times results \<noteq> []" by (rule generateReport_Inr(2) [OF assms])
  have "minResponseTime (summary r) = Min (set (successful_times results))"
    "maxResponseTime (summary r) = Max (set (successful_times results))"
    by (simp_all add: generateReport_Inr(3) [OF assms])
  then have "minResponseTime (summary r) = Min (responseTime ` set (filter is_success results))"
    "maxResponseTime (summary r) = Max (responseTime ` set (filter is_success results))"
    by (simp_all only: set_successful_times)
  moreover have "\<bar>successRate (summary r) + errorRate (summary r) - 100\<bar> \<le> 300 / 2 ^ 53"
    if "length results < 2 ^ 32"
  proof -
    have "0 < length results" using generateReport_Inr(1) [OF assms] by simp
    from rates_sum_to_100 [OF this that, of "length (filter is_success results)"]
    show ?thesis by (simp add: generateReport_Inr(3) [OF assms])
  qed
  ultimately show ?thesis
    by (simp add: generateReport_Inr(3) [OF assms] percentile_nth [OF ne])
qed

theorem summary_over_successful_subset_witness:
  "\<exists>r. generateReport 125000 ten_samples = Inr r
     \<and> totalRequests (summary r) = 10 \<and> successRate (summary r) = 80
     \<and> errorRate (summary r) = 20 \<and> averageResponseTime (summary r) = 10"
proof -
  obtain r where r: "generateReport 125000 ten_samples = Inr r"
    using ten_samples_report by blast
  show ?thesis
    using summary_over_successful_subset [OF r] r
    by (simp add: ten_samples_facts ten_samples_numbers)
qed

text \<open>
  C3. The two errors are as claimed: the empty-result error exactly for the empty sample
  set, the no-successful-samples error exactly for a non-empty set without a successful
  sample, and a report for the other sets while the successful samples are few. But the
  report is not returned for every other set: once the successful samples outnumber the
  arguments one call of the engine may take, \<^verbatim>\<open>Math.min(...responseTimes)\<close> throws a
  \<open>RangeError\<close>. The quick benchmark reaches this by itself: over \<open>n\<close> requests that all
  succeed, with \<open>n\<close> above the limit, it ends in the \<open>RangeError\<close> and not in a report.
\<close>

theorem quick_benchmark_range_error:
  assumes "argLimit < n"
  shows "runQuickBenchmark argLimit n healthy_env
           = Inl (RangeError ''Maximum call stack size exceeded'')"
proof -
  obtain st where st: "quick_loop n healthy_env 0 initial_state = Inr st"
    and len: "length (run_results st) = n"
    using quick_loop_progress [of 0 n healthy_env initial_state]
    by (auto simp: initial_state_def)
  have "\<forall>s\<in>set (run_results st). is_path (endpoint s)"
    using quick_loop_paths [OF _ st] by (simp add: initial_state_def)
  then have np: "\<forall>s\<in>set (run_results st). endpoint s \<notin> set object_prototype_keys"
    by (auto dest: path_not_prototype_key)
  have "\<forall>s\<in>set (run_results st). is_success s"
    using quick_loop_healthy [OF _ st] by (simp add: initial_state_def)
  then have "filter is_success (run_results st) = run_results st" by simp
  with assms len have "argLimit < length (filter is_success (run_results st))" by simp
  from generateReport_range_error [OF np this] show ?thesis
    using st by (simp add: runQuickBenchmark_def initial_state_def)
qed

theorem quick_benchmark_range_error_witness:
  "runQuickBenchmark 125000 200000 healthy_env
     = Inl (RangeError ''Maximum call stack size exceeded'')"
  using quick_benchmark_range_error [of 125000 200000] by simp

text \<open>
  C4. \<open>testSingleRequest\<close> never raises: for every start reading, outcome, endpoint and
  method it returns a sample, never an error. When \<open>fetch\<close> rejects, or the body read
  fails, the sample has \<open>statusCode = 0\<close>, \<open>contentLength = 0\<close> and the time elapsed up
  to the failure as its \<open>responseTime\<close>; when the response is read, the sample carries
  the response's status, whatever it is.
\<close>

theorem probe_never_raises:
  "(\<exists>sample. testSingleRequest s outcome d e m = Inr sample)
   \<and> testSingleRequest s (FetchRejected t) d e m =
       Inr \<lparr>endpoint = e, method_name = m, responseTime = fsub t s, statusCode = 0,
            contentLength = 0, timestamp = d\<rparr>
   \<and> testSingleRequest s (FetchResolved t1 status (BodyFailed t)) d e m =
       Inr \<lparr>endpoint = e, method_name = m, responseTime = fsub t s, statusCode = 0,
            contentLength = 0, timestamp = d\<rparr>
   \<and> testSingleRequest s (FetchResolved t1 status (BodyRead content t2)) d e m =
       Inr \<lparr>endpoint = e, method_name = m, responseTime = fsub t1 s, statusCode = status,
            contentLength = length content, timestamp = d\<rparr>"
  using testSingleRequest_total [of s outcome d e m]
  by (auto simp: testSingleRequest_rejected testSingleRequest_body_failed
        testSingleRequest_read)

theorem probe_never_raises_witness:
  "testSingleRequest 0 (FetchRejected 3) 1000 ''/health'' ''GET'' =
     Inr \<lparr>endpoint = ''/health'', method_name = ''GET'', responseTime = 3, statusCode = 0,
          contentLength = 0, timestamp = 1000\<rparr>"
proof -
  have "fsub 3 0 = 3" by code_simp
  then show ?thesis
    using probe_never_raises [of 0 "FetchRejected 3" 1000 "''/health''" "''GET''" 3]
    by simp
qed

text \<open>
  C5, as the claim states it, fails: a response whose head arrives when the clock reads
  5 and whose body is complete when it reads 12 (dispatch at 0) is not recorded with the
  12 ms up to the complete body.
\<close>

theorem response_time_body_counterexample:
  "testSingleRequest 0 (FetchResolved 5 200 (BodyRead [111, 107] 12)) 1000 ''/'' ''GET''
   \<noteq> Inr \<lparr>endpoint = ''/'', method_name = ''GET'', responseTime = fsub 12 0, statusCode = 200,
           contentLength = 2, timestamp = 1000\<rparr>"
proof -
  have "fsub 12 0 = 12" by code_simp
  moreover have "fsub 5 0 = 5" by code_simp
  ultimately show ?thesis by (simp add: testSingleRequest_read)
qed

text \<open>
  C5, amended. For a probe whose response is read, \<open>responseTime\<close> is the time from
  dispatch to the moment \<open>fetch\<close> resolves; the time at which the body is complete does
  not enter it. For a failed probe it is the time from dispatch to the failure.
\<close>

theorem response_time_until_fetch_resolves:
  "map_sum id responseTime
     (testSingleRequest s (FetchResolved t1 status (BodyRead content t2)) d e m)
     = Inr (fsub t1 s)
   \<and> map_sum id responseTime (testSingleRequest s (FetchRejected t) d e m) = Inr (fsub t s)
   \<and> map_sum id responseTime
       (testSingleRequest s (FetchResolved t1 status (BodyFailed t)) d e m) = Inr (fsub t s)"
  by (simp add: testSingleRequest_rejected testSingleRequest_body_failed
        testSingleRequest_read)

theorem response_time_until_fetch_resolves_witness:
  "map_sum id responseTime
     (testSingleRequest 0 (FetchResolved 5 200 (BodyRead [111, 107] 12)) 1000 ''/'' ''GET'')
   = Inr 5"
proof -
  have "fsub 5 0 = 5" by code_simp
  then show ?thesis
    using response_time_until_fetch_resolves
      [of 0 5 200 "[111, 107]" 12 1000 "''/''" "''GET''"]
    by simp
qed

text \<open>
  C6. In a returned report the endpoint breakdown has exactly one entry for each endpoint
  path that occurs in the samples, whatever the methods. The entry of a path is computed
  from all samples with that path, successes and failures together: their number, the
  mean of their response times, the element at index \<open>floor (m * 0.95)\<close> of their sorted
  response times, and their success rate. The request counts of the entries add up to
  the number of samples.
\<close>

theorem endpoint_breakdown_groups:
  assumes "generateReport argLimit results = Inr r"
  shows "distinct (map fst (endpointBreakdown r))
    \<and> set (map fst (endpointBreakdown r)) = endpoint ` set results
    \<and> (\<forall>e\<in>endpoint ` set results.
          map_of (endpointBreakdown r) e = Some (spec_group_breakdown (group_of e results)))
    \<and> sum_list (map (\<lambda>(e, b). requests b) (endpointBreakdown r)) = length results"
  using generateReport_breakdown [OF assms] by simp

theorem endpoint_breakdown_groups_witness:
  "\<exists>r. generateReport 125000 mixed_samples = Inr r
     \<and> map_of (endpointBreakdown r) ''/a'' =
         Some \<lparr>requests = 2, avgResponseTime = 20, p95ResponseTime_ep = 30,
               successRate_ep = 50\<rparr>
     \<and> sum_list (map (\<lambda>(e, b). requests b) (endpointBreakdown r)) = 3"
proof -
  obtain r where r: "generateReport 125000 mixed_samples = Inr r"
    using mixed_samples_report by blast
  have g: "spec_group_breakdown (group_of ''/a'' mixed_samples) =
      \<lparr>requests = 2, avgResponseTime = 20, p95ResponseTime_ep = 30, successRate_ep = 50\<rparr>"
    by (simp add: mixed_samples_group spec_group_breakdown_def sample_of_def is_success_def
        mixed_samples_numbers percentileIndex_two)
  have l: "length mixed_samples = 3" by (simp add: mixed_samples_def)
  show ?thesis
    using endpoint_breakdown_groups [OF r] r mixed_samples_group(2) g l by auto
qed

text \<open>
  C7. For a non-empty array of response times the recommendations are a function of the
  mean, the 95th percentile and the success rate alone, namely the rule ladder of the
  specification: exactly one message of the mean ladder, one of the p95 ladder, one of
  the success-rate ladder, and the two further messages exactly when the mean is under
  100 and the success rate above 0.99, so three or five messages. For a mean of 45, a p95
  of 90 and a success rate of 1 these are the excellent, consistent-performance and
  outstanding messages and both further messages.
\<close>

theorem recommendations_rule_ladder:
  assumes "responseTimes \<noteq> []"
  shows "generateRecommendations responseTimes rate =
      spec_recommendations (mean_of responseTimes)
        (at_or_zero responseTimes (percentileIndex (length responseTimes) lit_0_95)) rate
    \<and> length (filter (\<lambda>msg. msg \<in> set mean_ladder)
          (generateRecommendations responseTimes rate)) = 1
    \<and> length (filter (\<lambda>msg. msg \<in> set p95_ladder)
          (generateRecommendations responseTimes rate)) = 1
    \<and> length (filter (\<lambda>msg. msg \<in> set success_ladder)
          (generateRecommendations responseTimes rate)) = 1
    \<and> filter (\<lambda>msg. msg \<in> set bonus_messages) (generateRecommendations responseTimes rate) =
        (if mean_of responseTimes < 100 \<and> lit_0_99 < rate then bonus_messages else [])
    \<and> length (generateRecommendations responseTimes rate) =
        (if mean_of responseTimes < 100 \<and> lit_0_99 < rate then 5 else 3)
    \<and> spec_recommendations 45 90 1 =
        [msg_mean_excellent, msg_p95_consistent, msg_success_outstanding,
         msg_cambridge_validation, msg_competitive_advantage]"
proof -
  have l: "length (spec_recommendations a b c) = (if a < 100 \<and> lit_0_99 < c then 5 else 3)"
    for a b c by (simp add: spec_recommendations_def)
  show ?thesis
    unfolding generateRecommendations_spec [OF assms]
    by (simp only: ladder_counts bonus_iff spec_recommendations_example l)
qed

theorem recommendations_rule_ladder_witness:
  "mean_of [0, 90] = 45
   \<and> at_or_zero [0, 90] (percentileIndex (length [0, 90 :: rat]) lit_0_95) = 90
   \<and> generateRecommendations [0, 90] 1 =
       [msg_mean_excellent, msg_p95_consistent, msg_success_outstanding,
        msg_cambridge_validation, msg_competitive_advantage]"
proof -
  have "[0, 90 :: rat] \<noteq> []" by simp
  from recommendations_rule_ladder [OF this, of 1] show ?thesis
    by (simp only: mean_p95_example)
qed

text \<open>
  C8. For every non-empty catalog and every draw the selector returns an entry of the
  catalog: the first entry at which the running remainder is zero or below, and the
  first entry of the catalog when no remainder is. \<open>selectRandomEndpoint\<close>, over the
  default catalog, therefore always returns an entry.
\<close>

theorem weighted_selector_returns_entry:
  "(endpoints \<noteq> [] \<longrightarrow> (\<exists>ep\<in>set endpoints. select_draw endpoints random = Some ep))
   \<and> select_draw endpoints random = spec_select endpoints random
   \<and> (\<exists>ep\<in>set getTestEndpoints. selectRandomEndpoint u = Some ep)"
  using select_draw_in_set [of endpoints random] select_draw_spec [of endpoints random]
    selectRandomEndpoint_Some [of u]
  by blast

theorem weighted_selector_returns_entry_witness:
  "getTestEndpoints \<noteq> []
   \<and> map_option path (select_draw getTestEndpoints 50) = Some ''/api/blogs''"
  using weighted_selector_returns_entry [of getTestEndpoints 50]
    getTestEndpoints_nonempty spec_select_example
  by simp

text \<open>
  C9, as the claim states it, fails: with 15 requests the ceiling of 15 / 10 is 2, but
  the benchmark writes a progress line at every iteration, not at the even ones only.
\<close>

theorem progress_interval_counterexample:
  "map_sum id run_progress (quick_loop 15 refused_env 0 initial_state)
     \<noteq> Inr (spec_progress_iterations 15)"
proof -
  have p: "progressInterval 15 = 1"
    using progressInterval_exact [of 15] by simp
  obtain st where st: "quick_loop 15 refused_env 0 initial_state = Inr st"
    and pr: "run_progress st = run_progress initial_state
        @ filter (\<lambda>k. k mod progressInterval 15 = 0) [Suc 0..<Suc 15]"
    using quick_loop_progress [of 0 15 refused_env initial_state] by auto
  have "length (run_progress st) = 15"
    by (simp add: pr p initial_state_def)
  then have "run_progress st \<noteq> spec_progress_iterations 15"
    by (auto simp: spec_progress_15)
  then show ?thesis by (simp add: st)
qed

text \<open>
  C9, amended. Over \<open>n\<close> requests the benchmark loop makes \<open>n\<close> probes and writes a
  progress line exactly at the iterations whose 1-based index is a multiple of
  \<open>progressInterval n\<close>, which is \<open>max 1 (floor (n / 10))\<close>: the floor, not the ceiling,
  and never less than one.
\<close>

theorem progress_every_interval:
  "(\<exists>st. quick_loop n env 0 initial_state = Inr st
      \<and> run_progress st = filter (\<lambda>k. k mod progressInterval n = 0) [1..<Suc n]
      \<and> length (run_results st) = n)
   \<and> (n < 2 ^ 53 \<longrightarrow> progressInterval n = max 1 (n div 10))"
  using quick_loop_progress [of 0 n env initial_state] progressInterval_exact [of n]
  by (auto simp: initial_state_def)

theorem progress_every_interval_witness:
  "progressInterval 25 = 2
   \<and> map_sum id run_progress (quick_loop 25 refused_env 0 initial_state)
       = Inr [2, 4, 6, 8, 10, 12, 14, 16, 18, 20, 22, 24]"
proof -
  have p: "progressInterval 25 = 2"
    using progress_every_interval [of 25 refused_env] by simp
  obtain st where "quick_loop 25 refused_env 0 initial_state = Inr st"
    "run_progress st = filter (\<lambda>k. k mod progressInterval 25 = 0) [1..<Suc 25]"
    using progress_every_interval [of 25 refused_env] by blast
  then show ?thesis
    by (simp only: p upt_1_26_multiples) (simp add: p)
qed

text \<open>
  C10. For every \<open>n \<ge> 1\<close> the indices \<open>floor (n * p)\<close> of the three percentiles, as the
  code computes them, are below \<open>n\<close>. So on a non-empty array the fallback
  \<^verbatim>\<open>|| 0\<close> returns the element itself, and in a returned report each summary
  percentile is the response time of some successful sample, and the p95 of each
  breakdown entry is the response time of some sample of that endpoint.
\<close>

theorem percentile_indices_in_bounds:
  "(0 < n \<longrightarrow> percentileIndex n lit_0_5 < n \<and> percentileIndex n lit_0_95 < n
       \<and> percentileIndex n lit_0_99 < n)
   \<and> (xs \<noteq> [] \<longrightarrow>
        at_or_zero xs (percentileIndex (length xs) lit_0_5)
          = xs ! percentileIndex (length xs) lit_0_5
      \<and> at_or_zero xs (percentileIndex (length xs) lit_0_95)
          = xs ! percentileIndex (length xs) lit_0_95
      \<and> at_or_zero xs (percentileIndex (length xs) lit_0_99)
          = xs ! percentileIndex (length xs) lit_0_99)
   \<and> (generateReport argLimit results = Inr r \<longrightarrow>
        p50ResponseTime (summary r) \<in> responseTime ` set (filter is_success results)
      \<and> p95ResponseTime (summary r) \<in> responseTime ` set (filter is_success results)
      \<and> p99ResponseTime (summary r) \<in> responseTime ` set (filter is_success results)
      \<and> (\<forall>(e, b)\<in>set (endpointBreakdown r).
            p95ResponseTime_ep b \<in> responseTime ` set (group_of e results)))"
proof (intro conjI impI)
  assume n: "0 < n"
  show "percentileIndex n lit_0_5 < n" "percentileIndex n lit_0_95 < n"
    "percentileIndex n lit_0_99 < n"
    by (rule percentileIndex_in_bounds [OF n])+
next
  assume xs: "xs \<noteq> []"
  show "at_or_zero xs (percentileIndex (length xs) lit_0_5)
          = xs ! percentileIndex (length xs) lit_0_5"
    "at_or_zero xs (percentileIndex (length xs) lit_0_95)
          = xs ! percentileIndex (length xs) lit_0_95"
    "at_or_zero xs (percentileIndex (length xs) lit_0_99)
          = xs ! percentileIndex (length xs) lit_0_99"
    by (rule percentile_nth [OF xs])+
next
  assume r: "generateReport argLimit results = Inr r"
  have ne: "successful_times results \<noteq> []" by (rule generateReport_Inr(2) [OF r])
  then have len: "0 < length (successful_times results)" by simp
  have mem: "successful_times results ! percentileIndex (length (successful_times results)) p
      \<in> responseTime ` set (filter is_success results)"
    if "percentileIndex (length (successful_times results)) p
          < length (successful_times results)" for p
    using nth_mem [OF that] by (simp only: set_successful_times)
  show "p50ResponseTime (summary r) \<in> responseTime ` set (filter is_success results)"
    using mem [OF percentileIndex_in_bounds(1) [OF len]]
    by (simp add: generateReport_Inr(3) [OF r] percentile_nth [OF ne])
  show "p95ResponseTime (summary r) \<in> responseTime ` set (filter is_success results)"
    using mem [OF percentileIndex_in_bounds(2) [OF len]]
    by (simp add: generateReport_Inr(3) [OF r] percentile_nth [OF ne])
  show "p99ResponseTime (summary r) \<in> responseTime ` set (filter is_success results)"
    using mem [OF percentileIndex_in_bounds(3) [OF len]]
    by (simp add: generateReport_Inr(3) [OF r] percentile_nth [OF ne])
  show "\<forall>(e, b)\<in>set (endpointBreakdown r).
            p95ResponseTime_ep b \<in> responseTime ` set (group_of e results)"
  proof (clarify)
    fix e b
    assume eb: "(e, b) \<in> set (endpointBreakdown r)"
    have d: "distinct (map fst (endpointBreakdown r))"
      by (rule generateReport_breakdown(1) [OF r])
    have "e \<in> set (map fst (endpointBreakdown r))" using eb by force
    then have e: "e \<in> endpoint ` set results"
      by (simp only: generateReport_breakdown(2) [OF r])
    then have g: "group_of e results \<noteq> []"
      by (auto simp: group_of_def filter_empty_conv)
    have "map_of (endpointBreakdown r) e = Some b"
      using d eb by (rule map_of_is_SomeI)
    then have "b = spec_group_breakdown (group_of e results)"
      using e by (simp add: generateReport_breakdown(3) [OF r])
    then show "p95ResponseTime_ep b \<in> responseTime ` set (group_of e results)"
      using group_p95_observed [OF g] by simp
  qed
qed

theorem percentile_indices_in_bounds_witness:
  "percentileIndex 1 lit_0_99 < 1
   \<and> at_or_zero [0, 7] (percentileIndex 2 lit_0_5) = 7
   \<and> (\<exists>r. generateReport 125000 mixed_samples = Inr r
        \<and> p99ResponseTime (summary r) \<in> {10, 20})"
proof -
  obtain r where r: "generateReport 125000 mixed_samples = Inr r"
    using mixed_samples_report by blast
  have s: "responseTime ` set (filter is_success mixed_samples) = {10, 20}"
    by (auto simp: mixed_samples_def sample_of_def is_success_def)
  have i: "percentileIndex 2 lit_0_5 = 1"
    using percentileIndex_exact_literals(1) [of 2] by simp
  have a: "at_or_zero [0, 7] (percentileIndex 2 lit_0_5) = 7"
    by (simp add: i at_or_zero_def)
  have "p99ResponseTime (summary r) \<in> {10, 20}"
    using percentile_indices_in_bounds [of 1 "[0, 7]" 125000 mixed_samples r] r
    by (simp only: s)
  moreover have "percentileIndex 1 lit_0_99 < 1"
    using percentile_indices_in_bounds [of 1 "[0, 7]" 125000 mixed_samples r] by simp
  ultimately show ?thesis using a r by simp
qed

end
